theory Spec2Isabelle
  imports Complex_Main "HOL-Library.Multiset"
begin

section \<open>The order protocol (mps\_algo\_order.h)\<close>

text \<open>
  The enumeration \<^verbatim>\<open>MPS_AlGO_ORDER\<close>, in the order of its declaration. The master is
  the only sender (\<^verbatim>\<open>MasterBroadcastOrder\<close>); a slave reads one order per call of
  \<^verbatim>\<open>SlaveGetBroadcastOrder\<close>.
\<close>

datatype MPS_AlGO_ORDER =
    program_start
  | init_grow_env
  | init_grow_env_grow
  | init_grow_env_finish
  | lanczos
  | svd
  | lanczos_mat_vec_dynamic
  | lanczos_mat_vec_static
  | lanczos_finish
  | contract_for_right_moving_expansion
  | contract_for_left_moving_expansion
  | growing_left_env
  | growing_right_env
  | program_final

section \<open>The TDVP slave receive loop (two\_site\_update\_finite\_tdvp\_mpi\_impl\_slave.h)\<close>

text \<open>
  What one pass through the \<^verbatim>\<open>switch\<close> of \<^verbatim>\<open>SlaveTwoSiteFiniteTDVP\<close> does, as seen from
  outside the numeric kernels: the kernels (\<^verbatim>\<open>SlaveLanczosSolver\<close>, \<^verbatim>\<open>MPISVDSlave\<close>,
  \<^verbatim>\<open>SlaveGrowLeftEnvironment\<close>, \<^verbatim>\<open>SlaveGrowRightEnvironment\<close>) are recorded as calls
  that return, the two messages printed by the loop itself are recorded with the order
  they print.
\<close>

datatype slave_effect =
    SendRankToMaster
  | CallSlaveLanczosSolver
  | CallMPISVDSlave
  | PrintNoFunctionality MPS_AlGO_ORDER
  | CallSlaveGrowLeftEnvironment
  | CallSlaveGrowRightEnvironment
  | PrintWillStop
  | PrintNotUnderstood MPS_AlGO_ORDER

text \<open>
  \<^verbatim>\<open>std::vector<TenT *> eff_ham(two_site_eff_ham_size)\<close>: four pointers, null when the
  vector is built. A pointer is null, the result of a \<^verbatim>\<open>new TenT()\<close> that has not been
  deleted, the same after its \<^verbatim>\<open>delete\<close> (the loop never resets a pointer it has
  deleted), or the address of a tensor of \<^verbatim>\<open>mpo\<close>.
\<close>

datatype tensor_pointer = Null | Allocated | Released | Into_mpo nat

record eff_ham_vector =
  eff_ham_0 :: tensor_pointer
  eff_ham_1 :: tensor_pointer
  eff_ham_2 :: tensor_pointer
  eff_ham_3 :: tensor_pointer

definition null_eff_ham :: eff_ham_vector where
  "null_eff_ham = \<lparr>eff_ham_0 = Null, eff_ham_1 = Null, eff_ham_2 = Null, eff_ham_3 = Null\<rparr>"

text \<open>
  \<^verbatim>\<open>delete p\<close> does nothing on a null pointer and releases an allocated tensor, leaving
  the pointer as it is; on a pointer already deleted, or on one that \<^verbatim>\<open>new\<close> did not
  return, it is undefined (\<open>None\<close>). \<^verbatim>\<open>*p\<close> is defined for an allocated tensor and for a
  tensor of \<^verbatim>\<open>mpo\<close>, which has \<open>N\<close> of them.
\<close>

definition delete_tensor :: "tensor_pointer \<Rightarrow> tensor_pointer option" where
  "delete_tensor p =
     (case p of Null \<Rightarrow> Some Null | Allocated \<Rightarrow> Some Released
              | Released \<Rightarrow> None | Into_mpo i \<Rightarrow> None)"

definition dereferenceable :: "nat \<Rightarrow> tensor_pointer \<Rightarrow> bool" where
  "dereferenceable N p =
     (case p of Null \<Rightarrow> False | Allocated \<Rightarrow> True | Released \<Rightarrow> False | Into_mpo i \<Rightarrow> i < N)"

text \<open>
  A case of the \<^verbatim>\<open>switch\<close> falls through to the loop test (\<open>Proceed\<close>, with the pointers
  and the site indices still to come), or calls \<^verbatim>\<open>world.abort(1)\<close>, which ends every
  process of the job and does not return (\<open>AbortJob\<close>), or blocks in the broadcast of
  \<^verbatim>\<open>lsite_idx\<close> that the master has not sent (\<open>AwaitSite\<close>), or has no defined behaviour
  (\<open>Undefined\<close>).
\<close>

datatype slave_step =
    Proceed slave_effect eff_ham_vector "nat list"
  | AbortJob slave_effect
  | AwaitSite
  | Undefined

text \<open>
  The \<^verbatim>\<open>switch\<close>. \<open>N\<close> is \<^verbatim>\<open>mpo.size()\<close>, \<open>lsite_idxs\<close> the values that the master
  broadcasts for \<^verbatim>\<open>lsite_idx\<close>, in the order it sends them; \<^verbatim>\<open>lsite_idx + 1\<close> is a sum of
  \<^verbatim>\<open>size_t\<close>. In the case \<^verbatim>\<open>lanczos\<close> the two \<^verbatim>\<open>new TenT()\<close> overwrite what
  \<^verbatim>\<open>eff_ham[0]\<close> and \<^verbatim>\<open>eff_ham[3]\<close> held, and \<^verbatim>\<open>mpo[lsite_idx]\<close>, \<^verbatim>\<open>mpo[rsite_idx]\<close> are
  accesses to \<^verbatim>\<open>mpo\<close>. The two growth cases delete one pointer, hand the tensors behind
  two others to the kernel, and delete a second pointer.
\<close>

fun slave_switch ::
  "nat \<Rightarrow> MPS_AlGO_ORDER \<Rightarrow> eff_ham_vector \<Rightarrow> nat list \<Rightarrow> slave_step" where
  "slave_switch N program_start eff_ham lsite_idxs =
     Proceed SendRankToMaster eff_ham lsite_idxs"
| "slave_switch N lanczos eff_ham lsite_idxs =
     (case lsite_idxs of
        [] \<Rightarrow> AwaitSite
      | lsite_idx # later \<Rightarrow>
          (let rsite_idx = (lsite_idx + 1) mod 2 ^ 64 in
           if lsite_idx < N \<and> rsite_idx < N then
             Proceed CallSlaveLanczosSolver
               (eff_ham\<lparr>eff_ham_0 := Allocated, eff_ham_1 := Into_mpo lsite_idx,
                        eff_ham_2 := Into_mpo rsite_idx, eff_ham_3 := Allocated\<rparr>)
               later
           else Undefined))"
| "slave_switch N svd eff_ham lsite_idxs = Proceed CallMPISVDSlave eff_ham lsite_idxs"
| "slave_switch N contract_for_right_moving_expansion eff_ham lsite_idxs =
     AbortJob (PrintNoFunctionality contract_for_right_moving_expansion)"
| "slave_switch N contract_for_left_moving_expansion eff_ham lsite_idxs =
     AbortJob (PrintNoFunctionality contract_for_left_moving_expansion)"
| "slave_switch N growing_left_env eff_ham lsite_idxs =
     (case delete_tensor (eff_ham_3 eff_ham) of
        None \<Rightarrow> Undefined
      | Some p3 \<Rightarrow>
          if dereferenceable N (eff_ham_0 eff_ham) \<and> dereferenceable N (eff_ham_1 eff_ham) then
            (case delete_tensor (eff_ham_0 eff_ham) of
               None \<Rightarrow> Undefined
             | Some p0 \<Rightarrow>
                 Proceed CallSlaveGrowLeftEnvironment
                   (eff_ham\<lparr>eff_ham_3 := p3, eff_ham_0 := p0\<rparr>) lsite_idxs)
          else Undefined)"
| "slave_switch N growing_right_env eff_ham lsite_idxs =
     (case delete_tensor (eff_ham_0 eff_ham) of
        None \<Rightarrow> Undefined
      | Some p0 \<Rightarrow>
          if dereferenceable N (eff_ham_3 eff_ham) \<and> dereferenceable N (eff_ham_2 eff_ham) then
            (case delete_tensor (eff_ham_3 eff_ham) of
               None \<Rightarrow> Undefined
             | Some p3 \<Rightarrow>
                 Proceed CallSlaveGrowRightEnvironment
                   (eff_ham\<lparr>eff_ham_0 := p0, eff_ham_3 := p3\<rparr>) lsite_idxs)
          else Undefined)"
| "slave_switch N program_final eff_ham lsite_idxs = Proceed PrintWillStop eff_ham lsite_idxs"
| "slave_switch N order eff_ham lsite_idxs = Proceed (PrintNotUnderstood order) eff_ham lsite_idxs"

text \<open>
  How a run of the loop over a finite sequence of broadcasts ends: the function returned,
  the job was aborted, the slave is blocked in a broadcast that the master has not sent
  (of an order, or of \<^verbatim>\<open>lsite_idx\<close>), or the run left defined behaviour.
\<close>

datatype slave_outcome =
  Returned | Aborted | AwaitingBroadcast | AwaitingSiteIndex | UndefinedBehaviour

record slave_run =
  effects :: "slave_effect list"
  outcome :: slave_outcome
  unread :: "MPS_AlGO_ORDER list"

definition after_effect :: "slave_effect \<Rightarrow> slave_run \<Rightarrow> slave_run" where
  "after_effect e r = r\<lparr>effects := e # effects r\<rparr>"

text \<open>
  \<^verbatim>\<open>while (order != program_final) { order = SlaveGetBroadcastOrder(world); switch (order) ... }\<close>
  The arguments after \<open>N\<close> are the variable \<^verbatim>\<open>order\<close>, the vector \<^verbatim>\<open>eff_ham\<close>, the orders
  still to come and the site indices still to come.
\<close>

fun slave_loop ::
  "nat \<Rightarrow> MPS_AlGO_ORDER \<Rightarrow> eff_ham_vector \<Rightarrow> MPS_AlGO_ORDER list \<Rightarrow> nat list \<Rightarrow> slave_run" where
  "slave_loop N order eff_ham inbox lsite_idxs =
     (if order \<noteq> program_final then
        (case inbox of
           [] \<Rightarrow> \<lparr>effects = [], outcome = AwaitingBroadcast, unread = []\<rparr>
         | received # rest \<Rightarrow>
             (case slave_switch N received eff_ham lsite_idxs of
                AbortJob e \<Rightarrow> \<lparr>effects = [e], outcome = Aborted, unread = rest\<rparr>
              | AwaitSite \<Rightarrow> \<lparr>effects = [], outcome = AwaitingSiteIndex, unread = rest\<rparr>
              | Undefined \<Rightarrow> \<lparr>effects = [], outcome = UndefinedBehaviour, unread = rest\<rparr>
              | Proceed e eff_ham' later \<Rightarrow>
                  after_effect e (slave_loop N received eff_ham' rest later)))
      else \<lparr>effects = [], outcome = Returned, unread = inbox\<rparr>)"

definition SlaveTwoSiteFiniteTDVP :: "nat \<Rightarrow> MPS_AlGO_ORDER list \<Rightarrow> nat list \<Rightarrow> slave_run" where
  "SlaveTwoSiteFiniteTDVP N inbox lsite_idxs =
     slave_loop N program_start null_eff_ham inbox lsite_idxs"

text \<open>The orders on which this slave aborts, and the orders its \<^verbatim>\<open>switch\<close> has no case for.\<close>

definition abort_inducing :: "MPS_AlGO_ORDER \<Rightarrow> bool" where
  "abort_inducing order =
     (order = contract_for_right_moving_expansion \<or> order = contract_for_left_moving_expansion)"

definition unrecognized :: "MPS_AlGO_ORDER \<Rightarrow> bool" where
  "unrecognized order =
     (order = init_grow_env \<or> order = init_grow_env_grow \<or> order = init_grow_env_finish \<or>
      order = lanczos_mat_vec_dynamic \<or> order = lanczos_mat_vec_static \<or>
      order = lanczos_finish)"

text \<open>What the loop does on an order when the case is carried out to its end.\<close>

definition effect_of :: "MPS_AlGO_ORDER \<Rightarrow> slave_effect" where
  "effect_of order =
     (case order of
        program_start \<Rightarrow> SendRankToMaster
      | lanczos \<Rightarrow> CallSlaveLanczosSolver
      | svd \<Rightarrow> CallMPISVDSlave
      | contract_for_right_moving_expansion \<Rightarrow> PrintNoFunctionality order
      | contract_for_left_moving_expansion \<Rightarrow> PrintNoFunctionality order
      | growing_left_env \<Rightarrow> CallSlaveGrowLeftEnvironment
      | growing_right_env \<Rightarrow> CallSlaveGrowRightEnvironment
      | program_final \<Rightarrow> PrintWillStop
      | _ \<Rightarrow> PrintNotUnderstood order)"

text \<open>
  The orders before the first \<open>program_final\<close>, and the discipline that the master's
  sequence of orders keeps towards \<^verbatim>\<open>eff_ham\<close>: a growth order comes after a \<^verbatim>\<open>lanczos\<close>
  order with no other growth order in between. \<open>fresh\<close> tells whether such a \<^verbatim>\<open>lanczos\<close>
  has been seen.
\<close>

definition before_final :: "MPS_AlGO_ORDER list \<Rightarrow> MPS_AlGO_ORDER list" where
  "before_final inbox = takeWhile (\<lambda>order. order \<noteq> program_final) inbox"

fun growth_follows_lanczos :: "bool \<Rightarrow> MPS_AlGO_ORDER list \<Rightarrow> bool" where
  "growth_follows_lanczos fresh [] = True"
| "growth_follows_lanczos fresh (order # orders) =
     (if order = lanczos then growth_follows_lanczos True orders
      else if order = growing_left_env \<or> order = growing_right_env
           then fresh \<and> growth_follows_lanczos False orders
      else growth_follows_lanczos fresh orders)"

definition lanczos_count :: "MPS_AlGO_ORDER list \<Rightarrow> nat" where
  "lanczos_count orders = length (filter (\<lambda>order. order = lanczos) orders)"

text \<open>
  The pointers after a \<^verbatim>\<open>lanczos\<close> case: two allocated tensors and two tensors of
  \<^verbatim>\<open>mpo\<close>. In that state each growth case is defined; after it both allocated tensors
  are released.
\<close>

definition ready :: "nat \<Rightarrow> eff_ham_vector \<Rightarrow> bool" where
  "ready N eff_ham =
     (eff_ham_0 eff_ham = Allocated \<and> eff_ham_3 eff_ham = Allocated \<and>
      dereferenceable N (eff_ham_1 eff_ham) \<and> dereferenceable N (eff_ham_2 eff_ham))"
section \<open>The master of the noised two-site VMPS (two\_site\_update\_noised\_finite\_vmps\_mpi\_impl.h)\<close>

subsection \<open>Indices, errors, state\<close>

text \<open>
  Indices and lengths are \<^verbatim>\<open>size_t\<close> (64 bit). They are natural numbers here, and the
  subtraction is written with its wrap-around: \<^verbatim>\<open>a - b\<close> below zero continues from
  \<open>2 ^ 64\<close>. Additions of the constants 1 and 2 to a site index are not wrapped: a site
  index that is used is below \<^verbatim>\<open>mps.size()\<close>.
\<close>

definition size_t_sub :: "nat \<Rightarrow> nat \<Rightarrow> nat" where
  "size_t_sub a b = (if b \<le> a then a - b else a + 2 ^ 64 - b)"

text \<open>
  The ways the master leaves its normal path: an index beyond the end of \<^verbatim>\<open>mps\<close>,
  \<^verbatim>\<open>mpo\<close>, \<^verbatim>\<open>lenvs\<close> or \<^verbatim>\<open>renvs\<close> (undefined behaviour in C++), \<^verbatim>\<open>exit(1)\<close> on a
  \<^verbatim>\<open>dir\<close> that is neither \<^verbatim>\<open>'r'\<close> nor \<^verbatim>\<open>'l'\<close>, reading the local \<^verbatim>\<open>noise\<close> before
  anything was assigned to it, and an \<^verbatim>\<open>assert\<close> that fails in a build that checks
  assertions.
\<close>

datatype master_error = OutOfRange | ExitOne | UninitialisedRead | AssertionFailed

text \<open>
  What the master holds: which MPS tensors and which environment tensors are in memory,
  and which environment files exist under \<^verbatim>\<open>temp_path\<close>. An environment file is named by
  its side (\<^verbatim>\<open>"l"\<close> or \<^verbatim>\<open>"r"\<close>) and its length, the arguments of \<^verbatim>\<open>GenEnvTenName\<close>.
\<close>

record storage =
  mps_mem :: "nat set"
  lenvs_mem :: "nat set"
  renvs_mem :: "nat set"
  env_files :: "(char \<times> nat) set"

text \<open>
  What the master does, in the order it does it: the orders it broadcasts, its loads,
  dumps, removals and assignments, and its calls. The callees that lie outside the
  files modelled here (\<^verbatim>\<open>MasterLanczosSolver\<close>, \<^verbatim>\<open>MPISVDMaster\<close>, \<^verbatim>\<open>MasterGrowLeftEnvironment\<close>,
  \<^verbatim>\<open>MasterGrowRightEnvironment\<close>, \<^verbatim>\<open>TwoSiteFiniteVMPSInit\<close>'s own callees) appear as one
  event each; what they broadcast inside is not recorded.
\<close>

datatype master_event =
    Broadcast MPS_AlGO_ORDER
  | Loaded_mps nat
  | Dumped_mps nat
  | Loaded_env char nat
  | Removed_file char nat
  | Assigned_mps nat
  | Assigned_env char nat
  | Printed_sweep nat
  | Called_TwoSiteFiniteVMPSInit
  | Called_TwoSiteFiniteVMPSSweep real
  | Called_MasterTwoSiteFiniteVMPSUpdate char nat real
  | Called_MasterLanczosSolver
  | Called_expansion_fan_in char
  | Called_MPISVDMaster
  | Called_MasterGrowLeftEnvironment
  | Called_MasterGrowRightEnvironment

record master_state =
  store :: storage
  trace :: "master_event list"

definition emit :: "master_event \<Rightarrow> master_state \<Rightarrow> master_state" where
  "emit e s = s\<lparr>trace := trace s @ [e]\<rparr>"

definition on_store :: "(storage \<Rightarrow> storage) \<Rightarrow> master_state \<Rightarrow> master_state" where
  "on_store f s = s\<lparr>store := f (store s)\<rparr>"

text \<open>Sequencing: the first error ends the run.\<close>

abbreviation and_then ::
  "master_error + 'a \<Rightarrow> ('a \<Rightarrow> master_error + 'b) \<Rightarrow> master_error + 'b" where
  "and_then m f \<equiv> (case m of Inl e \<Rightarrow> Inl e | Inr x \<Rightarrow> f x)"

text \<open>An access at index \<open>i\<close> of a vector of \<open>n\<close> elements.\<close>

definition index_below :: "nat \<Rightarrow> nat \<Rightarrow> master_state \<Rightarrow> master_error + master_state" where
  "index_below n i s = (if i < n then Inr s else Inl OutOfRange)"

text \<open>\<^verbatim>\<open>MasterBroadcastOrder(order, world)\<close> of mps\_algo\_order.h.\<close>

definition MasterBroadcastOrder :: "MPS_AlGO_ORDER \<Rightarrow> master_state \<Rightarrow> master_state" where
  "MasterBroadcastOrder order s = emit (Broadcast order) s"

subsection \<open>Tensor storage\<close>

text \<open>
  Modelled from the spec: \<^verbatim>\<open>FiniteMPS::LoadTen\<close>, \<^verbatim>\<open>FiniteMPS::DumpTen\<close>,
  \<^verbatim>\<open>TenVec::LoadTen\<close> and \<^verbatim>\<open>RemoveFile\<close> are declared outside the files modelled here. The
  spec describes the storage as load and dump of one tensor by its index, one file per
  site and one file per (side, length) of an environment: a load makes the tensor at
  that index resident, a dump with release makes it non-resident, a removal deletes the
  file. \<open>N\<close> is \<^verbatim>\<open>mps.size()\<close>; \<^verbatim>\<open>lenvs\<close> and \<^verbatim>\<open>renvs\<close> are built with \<open>N - 1\<close> elements.
\<close>

definition mps_LoadTen :: "nat \<Rightarrow> nat \<Rightarrow> master_state \<Rightarrow> master_error + master_state" where
  "mps_LoadTen N i s =
     and_then (index_below N i s) (\<lambda>s.
     Inr (emit (Loaded_mps i) (on_store (\<lambda>st. st\<lparr>mps_mem := insert i (mps_mem st)\<rparr>) s)))"

definition mps_DumpTen_release :: "nat \<Rightarrow> nat \<Rightarrow> master_state \<Rightarrow> master_error + master_state" where
  "mps_DumpTen_release N i s =
     and_then (index_below N i s) (\<lambda>s.
     Inr (emit (Dumped_mps i) (on_store (\<lambda>st. st\<lparr>mps_mem := mps_mem st - {i}\<rparr>) s)))"

definition lenvs_LoadTen :: "nat \<Rightarrow> nat \<Rightarrow> master_state \<Rightarrow> master_error + master_state" where
  "lenvs_LoadTen N len s =
     and_then (index_below (size_t_sub N 1) len s) (\<lambda>s.
     Inr (emit (Loaded_env (CHR ''l'') len)
            (on_store (\<lambda>st. st\<lparr>lenvs_mem := insert len (lenvs_mem st)\<rparr>) s)))"

definition renvs_LoadTen :: "nat \<Rightarrow> nat \<Rightarrow> master_state \<Rightarrow> master_error + master_state" where
  "renvs_LoadTen N len s =
     and_then (index_below (size_t_sub N 1) len s) (\<lambda>s.
     Inr (emit (Loaded_env (CHR ''r'') len)
            (on_store (\<lambda>st. st\<lparr>renvs_mem := insert len (renvs_mem st)\<rparr>) s)))"

definition RemoveFile :: "char \<Rightarrow> nat \<Rightarrow> master_state \<Rightarrow> master_state" where
  "RemoveFile side len s =
     emit (Removed_file side len)
       (on_store (\<lambda>st. st\<lparr>env_files := env_files st - {(side, len)}\<rparr>) s)"

subsection \<open>Loading the tensors of the next bond\<close>

text \<open>
  \<^verbatim>\<open>LoadRelatedTensOnTwoSiteAlgWhenRightMoving\<close>: both branches load the MPS tensor at
  \<open>target_site + 2\<close> and load and remove one right environment file; the branch of the
  boundary site (\<^verbatim>\<open>target_site == left_boundary\<close>) loads the left environment of length
  \<open>target_site\<close> in addition and has no \<^verbatim>\<open>RemoveFile\<close> for it.
\<close>

definition LoadRelatedTensOnTwoSiteAlgWhenRightMoving ::
  "nat \<Rightarrow> nat \<Rightarrow> nat \<Rightarrow> master_state \<Rightarrow> master_error + master_state" where
  "LoadRelatedTensOnTwoSiteAlgWhenRightMoving N target_site left_boundary s =
     (if target_site \<noteq> left_boundary then
        and_then (mps_LoadTen N (target_site + 2) s) (\<lambda>s.
        let renv_len = size_t_sub N (target_site + 2) in
        and_then (renvs_LoadTen N renv_len s) (\<lambda>s.
        Inr (RemoveFile (CHR ''r'') renv_len s)))
      else
        and_then (mps_LoadTen N (target_site + 2) s) (\<lambda>s.
        let renv_len = size_t_sub (size_t_sub N 1) (target_site + 1) in
        and_then (renvs_LoadTen N renv_len s) (\<lambda>s.
        let s = RemoveFile (CHR ''r'') renv_len s;
            lenv_len = target_site
        in lenvs_LoadTen N lenv_len s)))"

text \<open>
  \<^verbatim>\<open>LoadRelatedTensOnTwoSiteAlgWhenLeftMoving\<close>: away from the boundary the left
  environment of length \<open>target_site - 1\<close> is loaded and its file removed; at the boundary
  site (\<^verbatim>\<open>target_site == right_boundary\<close>) the right environment of length
  \<open>(N - 1) - target_site\<close> is loaded, with no \<^verbatim>\<open>RemoveFile\<close> for it, and the file of the
  left environment of length \<open>target_site - 1\<close> is removed, with no load of it.
\<close>

definition LoadRelatedTensOnTwoSiteAlgWhenLeftMoving ::
  "nat \<Rightarrow> nat \<Rightarrow> nat \<Rightarrow> master_state \<Rightarrow> master_error + master_state" where
  "LoadRelatedTensOnTwoSiteAlgWhenLeftMoving N target_site right_boundary s =
     (if target_site \<noteq> right_boundary then
        and_then (mps_LoadTen N (size_t_sub target_site 2) s) (\<lambda>s.
        let lenv_len = size_t_sub (target_site + 1) 2 in
        and_then (lenvs_LoadTen N lenv_len s) (\<lambda>s.
        Inr (RemoveFile (CHR ''l'') lenv_len s)))
      else
        and_then (mps_LoadTen N (size_t_sub target_site 2) s) (\<lambda>s.
        let renv_len = size_t_sub (size_t_sub N 1) target_site in
        and_then (renvs_LoadTen N renv_len s) (\<lambda>s.
        let lenv_len = size_t_sub target_site 1
        in Inr (RemoveFile (CHR ''l'') lenv_len s))))"

subsection \<open>One bond update\<close>

text \<open>
  The noise is a \<^verbatim>\<open>double\<close>; it is a real number here, and the literal \<^verbatim>\<open>1e-10\<close> of the
  test \<^verbatim>\<open>fabs(noise)>=1e-10\<close> is the constant \<open>noise_floor\<close>.
\<close>

definition noise_floor :: real where
  "noise_floor = 1 / 10 ^ 10"

text \<open>
  The two expansion functions, as far as the trace goes: the fan-in over the slaves (its
  scheduling is modelled on its own below) and the replacement of the tensor at
  \<^verbatim>\<open>next_next_site\<close>.
\<close>

definition MasterTwoSiteFiniteVMPSRightMovingExpand ::
  "nat \<Rightarrow> nat \<Rightarrow> master_state \<Rightarrow> master_error + master_state" where
  "MasterTwoSiteFiniteVMPSRightMovingExpand N target_site s =
     (let s = emit (Called_expansion_fan_in (CHR ''r'')) s;
          next_next_site = target_site + 2
      in and_then (index_below N next_next_site s) (\<lambda>s.
         Inr (emit (Assigned_mps next_next_site) s)))"

definition MasterTwoSiteFiniteVMPSLeftMovingExpand ::
  "nat \<Rightarrow> nat \<Rightarrow> master_state \<Rightarrow> master_error + master_state" where
  "MasterTwoSiteFiniteVMPSLeftMovingExpand N target_site s =
     (let next_next_site = size_t_sub target_site 2;
          s = emit (Called_expansion_fan_in (CHR ''l'')) s
      in and_then (index_below N next_next_site s) (\<lambda>s.
         Inr (emit (Assigned_mps next_next_site) s)))"

text \<open>
  \<^verbatim>\<open>MasterTwoSiteFiniteVMPSUpdate\<close>. The first \<^verbatim>\<open>switch\<close> fixes the four indices or exits;
  then follow the accesses that build \<^verbatim>\<open>eff_ham\<close> and the initial state, the Lanczos
  solver, the expansion under the noise test, the SVD, the two assignments to the MPS and
  the growth of the environment on the side just passed.
\<close>

definition MasterTwoSiteFiniteVMPSUpdate ::
  "nat \<Rightarrow> char \<Rightarrow> nat \<Rightarrow> real \<Rightarrow> master_state \<Rightarrow> master_error + master_state" where
  "MasterTwoSiteFiniteVMPSUpdate N dir target_site noise s =
     (let s = emit (Called_MasterTwoSiteFiniteVMPSUpdate dir target_site noise) s in
      case (if dir = CHR ''r'' then
              Some (target_site, target_site + 1,
                    target_site, size_t_sub N (target_site + 2))
            else if dir = CHR ''l'' then
              Some (size_t_sub target_site 1, target_site,
                    size_t_sub target_site 1, size_t_sub (size_t_sub N target_site) 1)
            else None) of
        None \<Rightarrow> Inl ExitOne
      | Some (lsite_idx, rsite_idx, lenv_len, renv_len) \<Rightarrow>
          and_then (index_below (size_t_sub N 1) lenv_len s) (\<lambda>s.
          and_then (index_below N lsite_idx s) (\<lambda>s.
          and_then (index_below N rsite_idx s) (\<lambda>s.
          and_then (index_below (size_t_sub N 1) renv_len s) (\<lambda>s.
          let s = MasterBroadcastOrder lanczos s;
              s = emit Called_MasterLanczosSolver s
          in
          and_then
            (if \<bar>noise\<bar> \<ge> noise_floor then
               (if dir = CHR ''r'' then
                  MasterTwoSiteFiniteVMPSRightMovingExpand N target_site
                    (MasterBroadcastOrder contract_for_right_moving_expansion s)
                else
                  MasterTwoSiteFiniteVMPSLeftMovingExpand N target_site
                    (MasterBroadcastOrder contract_for_left_moving_expansion s))
             else Inr s) (\<lambda>s.
          let s = MasterBroadcastOrder svd s;
              s = emit Called_MPISVDMaster s;
              s = emit (Assigned_mps lsite_idx) s;
              s = emit (Assigned_mps rsite_idx) s
          in
          if dir = CHR ''r'' then
            (let s = MasterBroadcastOrder growing_left_env s in
             and_then (index_below (size_t_sub N 1) (lenv_len + 1) s) (\<lambda>s.
             and_then (index_below N target_site s) (\<lambda>s.
             Inr (emit (Assigned_env (CHR ''l'') (lenv_len + 1))
                    (emit Called_MasterGrowLeftEnvironment s)))))
          else
            (let s = MasterBroadcastOrder growing_right_env s in
             and_then (index_below (size_t_sub N 1) (renv_len + 1) s) (\<lambda>s.
             and_then (index_below N target_site s) (\<lambda>s.
             Inr (emit (Assigned_env (CHR ''r'') (renv_len + 1))
                    (emit Called_MasterGrowRightEnvironment s)))))))))))"

subsection \<open>Sweeps\<close>

text \<open>
  Code that the sweep calls and that is outside the files modelled here is a parameter:
  what \<^verbatim>\<open>DumpRelatedTensOnTwoSiteAlgWhenRightMoving\<close> and
  \<^verbatim>\<open>DumpRelatedTensOnTwoSiteAlgWhenLeftMoving\<close> do to the storage at a site, and what
  \<^verbatim>\<open>TwoSiteFiniteVMPSInit\<close> does to it. None of them is given the communicator, so none
  of them broadcasts.
\<close>

record collaborators =
  DumpRelatedTensOnTwoSiteAlgWhenRightMoving :: "nat \<Rightarrow> storage \<Rightarrow> storage"
  DumpRelatedTensOnTwoSiteAlgWhenLeftMoving :: "nat \<Rightarrow> storage \<Rightarrow> storage"
  TwoSiteFiniteVMPSInit_effect :: "storage \<Rightarrow> storage"

text \<open>
  \<^verbatim>\<open>for (size_t i = left_boundary; i <= right_boundary - 2; ++i)\<close> of
  \<^verbatim>\<open>TwoSiteFiniteVMPSSweep\<close>. The bound wraps when \<open>right_boundary < 2\<close>; the loop then
  runs until the load at \<open>i + 2\<close> leaves the MPS, which is why the recursion ends.
\<close>

function right_moving_loop ::
  "collaborators \<Rightarrow> nat \<Rightarrow> nat \<Rightarrow> nat \<Rightarrow> real \<Rightarrow> nat \<Rightarrow> master_state
     \<Rightarrow> master_error + master_state" where
  "right_moving_loop C N left_boundary right_boundary noise i s =
     (if i \<le> size_t_sub right_boundary 2 then
        and_then (LoadRelatedTensOnTwoSiteAlgWhenRightMoving N i left_boundary s) (\<lambda>s.
        and_then (MasterTwoSiteFiniteVMPSUpdate N (CHR ''r'') i noise s) (\<lambda>s.
        right_moving_loop C N left_boundary right_boundary noise (i + 1)
          (on_store (DumpRelatedTensOnTwoSiteAlgWhenRightMoving C i) s)))
      else Inr s)"
  by pat_completeness auto
termination
  by (relation "measure (\<lambda>(C, N, lb, rb, noise, i, s). N - i)")
     (auto simp: LoadRelatedTensOnTwoSiteAlgWhenRightMoving_def mps_LoadTen_def index_below_def
           split: if_splits sum.splits)

text \<open>\<^verbatim>\<open>for (size_t i = right_boundary; i >= left_boundary+2; --i)\<close>.\<close>

function left_moving_loop ::
  "collaborators \<Rightarrow> nat \<Rightarrow> nat \<Rightarrow> nat \<Rightarrow> real \<Rightarrow> nat \<Rightarrow> master_state
     \<Rightarrow> master_error + master_state" where
  "left_moving_loop C N left_boundary right_boundary noise i s =
     (if i \<ge> left_boundary + 2 then
        and_then (LoadRelatedTensOnTwoSiteAlgWhenLeftMoving N i right_boundary s) (\<lambda>s.
        and_then (MasterTwoSiteFiniteVMPSUpdate N (CHR ''l'') i noise s) (\<lambda>s.
        left_moving_loop C N left_boundary right_boundary noise (size_t_sub i 1)
          (on_store (DumpRelatedTensOnTwoSiteAlgWhenLeftMoving C i) s)))
      else Inr s)"
  by pat_completeness auto
termination
  by (relation "measure (\<lambda>(C, N, lb, rb, noise, i, s). i)")
     (auto simp: size_t_sub_def)

text \<open>
  \<^verbatim>\<open>TwoSiteFiniteVMPSSweep\<close>: \<^verbatim>\<open>lenvs\<close> and \<^verbatim>\<open>renvs\<close> are local to the sweep and start
  empty.
\<close>

definition TwoSiteFiniteVMPSSweep ::
  "collaborators \<Rightarrow> nat \<Rightarrow> nat \<Rightarrow> nat \<Rightarrow> real \<Rightarrow> master_state
     \<Rightarrow> master_error + master_state" where
  "TwoSiteFiniteVMPSSweep C N left_boundary right_boundary noise s =
     (let s = emit (Called_TwoSiteFiniteVMPSSweep noise) s;
          s = on_store (\<lambda>st. st\<lparr>lenvs_mem := {}, renvs_mem := {}\<rparr>) s
      in and_then (right_moving_loop C N left_boundary right_boundary noise left_boundary s) (\<lambda>s.
         left_moving_loop C N left_boundary right_boundary noise right_boundary s))"

text \<open>
  \<^verbatim>\<open>for (size_t sweep = 1; sweep <= sweep_params.sweeps; ++sweep)\<close> of
  \<^verbatim>\<open>MasterTwoSiteFiniteVMPS\<close>. The local \<^verbatim>\<open>double noise\<close> is declared without a value
  (\<open>None\<close>); it is assigned only when \<open>sweep - 1\<close> is an index of the list, and is passed to
  the sweep in every pass.
\<close>

function sweeps_loop ::
  "collaborators \<Rightarrow> nat \<Rightarrow> nat \<Rightarrow> nat \<Rightarrow> real list \<Rightarrow> nat \<Rightarrow> nat \<Rightarrow> real option
     \<Rightarrow> master_state \<Rightarrow> master_error + master_state" where
  "sweeps_loop C N left_boundary right_boundary noises sweeps sweep noise s =
     (if sweep \<le> sweeps then
        (let noise = (if size_t_sub sweep 1 < length noises
                      then Some (noises ! (size_t_sub sweep 1)) else noise);
             s = emit (Printed_sweep sweep) s
         in case noise of
              None \<Rightarrow> Inl UninitialisedRead
            | Some noise_value \<Rightarrow>
                and_then (TwoSiteFiniteVMPSSweep C N left_boundary right_boundary noise_value s)
                  (\<lambda>s. sweeps_loop C N left_boundary right_boundary noises sweeps
                          (sweep + 1) noise s))
      else Inr s)"
  by pat_completeness auto
termination
  by (relation "measure (\<lambda>(C, N, lb, rb, noises, sweeps, sweep, noise, s). sweeps + 1 - sweep)")
     auto

text \<open>
  \<^verbatim>\<open>MasterTwoSiteFiniteVMPS\<close>. \<open>boundaries\<close> is the pair that \<^verbatim>\<open>TwoSiteFiniteVMPSInit\<close>
  returns, \<open>noises\<close> and \<open>sweeps\<close> are the fields of \<^verbatim>\<open>sweep_params\<close>.
\<close>

definition MasterTwoSiteFiniteVMPS ::
  "collaborators \<Rightarrow> nat \<Rightarrow> nat \<times> nat \<Rightarrow> real list \<Rightarrow> nat \<Rightarrow> master_state
     \<Rightarrow> master_error + master_state" where
  "MasterTwoSiteFiniteVMPS C N boundaries noises sweeps s =
     (let s = MasterBroadcastOrder program_start s;
          s = on_store (TwoSiteFiniteVMPSInit_effect C) (emit Called_TwoSiteFiniteVMPSInit s);
          (left_boundary, right_boundary) = boundaries;
          noises = (if noises = [] then noises @ [0] else noises)
      in and_then (mps_LoadTen N left_boundary s) (\<lambda>s.
         and_then (mps_LoadTen N (left_boundary + 1) s) (\<lambda>s.
         and_then (sweeps_loop C N left_boundary right_boundary noises sweeps 1 None s) (\<lambda>s.
         and_then (mps_DumpTen_release N left_boundary s) (\<lambda>s.
         and_then (mps_DumpTen_release N (left_boundary + 1) s) (\<lambda>s.
         Inr (MasterBroadcastOrder program_final s)))))))"

section \<open>Boundary tensors before the first sweep (two\_site\_update\_finite\_vmps\_init.h)\<close>

text \<open>
  \<^verbatim>\<open>assert(cond)\<close>: a build with \<^verbatim>\<open>NDEBUG\<close> does not evaluate it, any other build ends the
  program when the condition is false.
\<close>

definition assert_that :: "bool \<Rightarrow> bool \<Rightarrow> master_state \<Rightarrow> master_error + master_state" where
  "assert_that checked cond s = (if checked \<and> \<not> cond then Inl AssertionFailed else Inr s)"

text \<open>
  The products of two extents of a shape are products of \<^verbatim>\<open>size_t\<close>: they wrap at
  \<open>2 ^ 64\<close>.
\<close>

definition size_t_mul :: "nat \<Rightarrow> nat \<Rightarrow> nat" where
  "size_t_mul a b = (a * b) mod 2 ^ 64"

text \<open>
  The first loop of \<^verbatim>\<open>CheckAndUpdateBoundaryMPSTensors\<close>,
  \<^verbatim>\<open>for(size_t i=0;i<left_middle_site;i++)\<close>. The shape of \<^verbatim>\<open>mps[i]\<close> after
  \<^verbatim>\<open>LeftCanonicalizeTen(i)\<close> comes from the tensor library; it is the parameter \<open>shape\<close>.
  The first test leaves the loop with \<open>left_boundary = i\<close>; the second assigns to the
  tensors at \<open>i\<close>, \<open>i + 1\<close> and \<open>i\<close> again; the last pass sets \<open>left_boundary\<close>. The result is the
  final value of \<open>left_boundary\<close> with the state.
\<close>

function left_side ::
  "(nat \<Rightarrow> nat \<times> nat \<times> nat) \<Rightarrow> nat \<Rightarrow> nat \<Rightarrow> nat \<Rightarrow> nat \<Rightarrow> nat \<Rightarrow> master_state
     \<Rightarrow> master_error + nat \<times> master_state" where
  "left_side shape Dmax N left_middle_site i left_boundary s =
     (if i < left_middle_site then
        and_then (mps_LoadTen N (i + 1) s) (\<lambda>s.
        and_then (index_below N i s) (\<lambda>s.
        case shape i of (d0, d1, d2) \<Rightarrow>
          if size_t_mul d0 d1 > Dmax then Inr (i, s)
          else
            (let s = (if size_t_mul d0 d1 > d2
                      then emit (Assigned_mps i)
                             (emit (Assigned_mps (i + 1)) (emit (Assigned_mps i) s))
                      else s);
                 left_boundary = (if i = size_t_sub left_middle_site 1 then i else left_boundary)
             in left_side shape Dmax N left_middle_site (i + 1) left_boundary s)))
      else Inr (left_boundary, s))"
  by pat_completeness auto
termination
  by (relation "measure (\<lambda>(shape, Dmax, N, lms, i, lb, s). lms - i)") auto

text \<open>\<^verbatim>\<open>for(size_t i=0;i<=left_boundary+1;i++) mps.DumpTen(i, ..., true)\<close>, from \<open>i\<close> on.\<close>

function dump_upwards :: "nat \<Rightarrow> nat \<Rightarrow> nat \<Rightarrow> master_state \<Rightarrow> master_error + master_state" where
  "dump_upwards N i bound s =
     (if i \<le> bound then
        and_then (mps_DumpTen_release N i s) (\<lambda>s. dump_upwards N (i + 1) bound s)
      else Inr s)"
  by pat_completeness auto
termination
  by (relation "measure (\<lambda>(N, i, bound, s). bound + 1 - i)") auto

text \<open>
  The second loop, \<^verbatim>\<open>for(size_t i=N-1;i>right_middle_site;i--)\<close>, with the shape of
  \<^verbatim>\<open>mps[i]\<close> after \<^verbatim>\<open>RightCanonicalizeTen(i)\<close> as parameter.
\<close>

function right_side ::
  "(nat \<Rightarrow> nat \<times> nat \<times> nat) \<Rightarrow> nat \<Rightarrow> nat \<Rightarrow> nat \<Rightarrow> nat \<Rightarrow> nat \<Rightarrow> master_state
     \<Rightarrow> master_error + nat \<times> master_state" where
  "right_side shape Dmax N right_middle_site i right_boundary s =
     (if i > right_middle_site then
        and_then (mps_LoadTen N (size_t_sub i 1) s) (\<lambda>s.
        and_then (index_below N i s) (\<lambda>s.
        case shape i of (d0, d1, d2) \<Rightarrow>
          if size_t_mul d1 d2 > Dmax then Inr (i, s)
          else
            (let s = (if size_t_mul d1 d2 > d0
                      then emit (Assigned_mps i) (emit (Assigned_mps (size_t_sub i 1)) s) else s);
                 right_boundary = (if i = right_middle_site + 1 then i else right_boundary)
             in right_side shape Dmax N right_middle_site (size_t_sub i 1) right_boundary s)))
      else Inr (right_boundary, s))"
  by pat_completeness auto
termination
  by (relation "measure (\<lambda>(shape, Dmax, N, rms, i, rb, s). i)")
     (auto simp: size_t_sub_def)

text \<open>
  \<^verbatim>\<open>for(size_t i=N-1;i>=right_boundary-1;i--) mps.DumpTen(i, ..., true)\<close>, from \<open>i\<close> on,
  with \<open>bound\<close> the value of \<^verbatim>\<open>right_boundary-1\<close>. After the pass at \<open>i = 0\<close> the
  decrement wraps to \<^verbatim>\<open>SIZE_MAX\<close>, which passes the test against any bound and is no
  index of the MPS.
\<close>

function dump_downwards :: "nat \<Rightarrow> nat \<Rightarrow> nat \<Rightarrow> master_state \<Rightarrow> master_error + master_state" where
  "dump_downwards N i bound s =
     (if i \<ge> bound then
        and_then (mps_DumpTen_release N i s) (\<lambda>s.
        if i = 0 then Inl OutOfRange else dump_downwards N (i - 1) bound s)
      else Inr s)"
  by pat_completeness auto
termination
  by (relation "measure (\<lambda>(N, i, bound, s). i)") auto

text \<open>
  \<^verbatim>\<open>CheckAndUpdateBoundaryMPSTensors\<close>. \<open>checked\<close> tells whether the build evaluates
  assertions; the two of this function are \<^verbatim>\<open>assert(mps.empty())\<close> on entry and before
  the return. The result is the pair \<open>(left_boundary, right_boundary)\<close> with the state.
\<close>

definition CheckAndUpdateBoundaryMPSTensors ::
  "bool \<Rightarrow> (nat \<Rightarrow> nat \<times> nat \<times> nat) \<Rightarrow> (nat \<Rightarrow> nat \<times> nat \<times> nat) \<Rightarrow> nat \<Rightarrow> nat \<Rightarrow> master_state
     \<Rightarrow> master_error + (nat \<times> nat) \<times> master_state" where
  "CheckAndUpdateBoundaryMPSTensors checked left_shape right_shape Dmax N s =
     and_then (assert_that checked (mps_mem (store s) = {}) s) (\<lambda>s.
     let left_middle_site = (if N mod 2 = 0 then size_t_sub (N div 2) 1 else N div 2);
         right_middle_site = (if N mod 2 = 0 then N div 2 else N div 2)
     in
     and_then (mps_LoadTen N 0 s) (\<lambda>s.
     and_then (left_side left_shape Dmax N left_middle_site 0 0 s) (\<lambda>(left_boundary, s).
     and_then (dump_upwards N 0 (left_boundary + 1) s) (\<lambda>s.
     and_then (mps_LoadTen N (size_t_sub N 1) s) (\<lambda>s.
     and_then (right_side right_shape Dmax N right_middle_site (size_t_sub N 1) 0 s)
       (\<lambda>(right_boundary, s).
     and_then (dump_downwards N (size_t_sub N 1) (size_t_sub right_boundary 1) s) (\<lambda>s.
     and_then (assert_that checked (mps_mem (store s) = {}) s) (\<lambda>s.
     Inr ((left_boundary, right_boundary), s)))))))))"

section \<open>Adding a term to the MPO generator (mpogen\_impl.h)\<close>

text \<open>
  The members of \<^verbatim>\<open>MPOGenerator\<close> that \<^verbatim>\<open>AddTerm\<close> and \<^verbatim>\<open>Gen\<close> read or write. The two
  label convertors and the finite-state machine are classes declared in other headers;
  their states are type parameters. The members are named without the trailing
  underscore of the source, and \<^verbatim>\<open>N_\<close> is \<open>member_N\<close>.
\<close>

record ('op, 'cconv, 'oconv, 'fsm) MPOGenerator =
  member_N :: nat
  id_op_vector :: "'op list"
  op_label_convertor :: 'oconv
  coef_label_convertor :: 'cconv
  fsm :: 'fsm

text \<open>\<^verbatim>\<open>OpRepr(coef_label, op_label)\<close> and \<^verbatim>\<open>OpRepr(op_label)\<close>.\<close>

datatype OpRepr = OpRepr_coef_op nat nat | OpRepr_op nat

text \<open>
  The member functions of the convertors and of the finite-state machine that the
  generator calls, and the assembly of the MPO tensors from what \<^verbatim>\<open>Gen\<close> reads, are
  parameters: \<^verbatim>\<open>Convert\<close> returns a label and may register the object,
  \<^verbatim>\<open>AddPath\<close> adds a path between two sites.
\<close>

record ('coef, 'op, 'cconv, 'oconv, 'fsm, 'mpo) generator_parts =
  coef_Convert :: "'cconv \<Rightarrow> 'coef \<Rightarrow> nat \<times> 'cconv"
  op_Convert :: "'oconv \<Rightarrow> 'op \<Rightarrow> nat \<times> 'oconv"
  AddPath :: "'fsm \<Rightarrow> int \<Rightarrow> int \<Rightarrow> OpRepr list \<Rightarrow> 'fsm"
  mpo_of_members :: "nat \<Rightarrow> 'fsm \<Rightarrow> 'cconv \<Rightarrow> 'oconv \<Rightarrow> 'mpo"

datatype gen_error = Gen_AssertionFailed | Gen_OutOfRange

text \<open>An \<^verbatim>\<open>int\<close> compared with a \<^verbatim>\<open>size_t\<close> is converted to \<^verbatim>\<open>size_t\<close> first.\<close>

definition size_t_of_int :: "int \<Rightarrow> nat" where
  "size_t_of_int x = nat (x mod 2 ^ 64)"

text \<open>
  \<^verbatim>\<open>std::find(xs.cbegin(), xs.cend(), x) - xs.cbegin()\<close>: the position of the first
  element equal to \<open>x\<close>, or the length of \<open>xs\<close> when there is none.
\<close>

fun find_position :: "'a \<Rightarrow> 'a list \<Rightarrow> nat" where
  "find_position x [] = 0"
| "find_position x (y # ys) = (if y = x then 0 else Suc (find_position x ys))"

text \<open>
  The loop \<^verbatim>\<open>for (int i = ntrvl_ops_idxs_head; i <= ntrvl_ops_idxs_tail; ++i)\<close> of the
  generic \<^verbatim>\<open>AddTerm\<close>: a site that carries a local operator gets the label of that
  operator, with the coefficient's label when it is the first one; any other site gets
  the label of its identity operator.
\<close>

function ntrvl_ops_reprs_loop ::
  "('coef, 'op, 'cconv, 'oconv, 'fsm, 'mpo) generator_parts \<Rightarrow> 'op list \<Rightarrow> nat \<Rightarrow> 'op list
     \<Rightarrow> int list \<Rightarrow> int \<Rightarrow> int \<Rightarrow> 'oconv \<Rightarrow> OpRepr list \<Rightarrow> gen_error + OpRepr list \<times> 'oconv" where
  "ntrvl_ops_reprs_loop P id_ops coef_label local_ops local_ops_idxs i tail oconv reprs =
     (if i \<le> tail then
        (let local_op_loc = find_position i local_ops_idxs in
         if local_op_loc < length local_ops_idxs then
           (if local_op_loc < length local_ops then
              (case op_Convert P oconv (local_ops ! local_op_loc) of (op_label, oconv) \<Rightarrow>
                 ntrvl_ops_reprs_loop P id_ops coef_label local_ops local_ops_idxs (i + 1) tail oconv
                   (reprs @ [if local_op_loc = 0 then OpRepr_coef_op coef_label op_label
                             else OpRepr_op op_label]))
            else Inl Gen_OutOfRange)
         else
           (if 0 \<le> i \<and> nat i < length id_ops then
              (case op_Convert P oconv (id_ops ! nat i) of (op_label, oconv) \<Rightarrow>
                 ntrvl_ops_reprs_loop P id_ops coef_label local_ops local_ops_idxs (i + 1) tail oconv
                   (reprs @ [OpRepr_op op_label]))
            else Inl Gen_OutOfRange))
      else Inr (reprs, oconv))"
  by pat_completeness auto
termination
  by (relation "measure (\<lambda>(P, id_ops, coef_label, local_ops, idxs, i, tail, oconv, reprs).
                  nat (tail + 1 - i))") auto

text \<open>
  The generic \<^verbatim>\<open>MPOGenerator::AddTerm(coef, local_ops, local_ops_idxs)\<close>. \<open>checked\<close> tells
  whether the build evaluates assertions. \<^verbatim>\<open>back()\<close> and \<^verbatim>\<open>front()\<close> of an empty vector
  are undefined. A zero coefficient returns before anything is converted or added.
\<close>

definition AddTerm ::
  "('coef::zero, 'op, 'cconv, 'oconv, 'fsm, 'mpo) generator_parts \<Rightarrow> bool \<Rightarrow> 'coef \<Rightarrow> 'op list
     \<Rightarrow> int list \<Rightarrow> ('op, 'cconv, 'oconv, 'fsm) MPOGenerator
     \<Rightarrow> gen_error + ('op, 'cconv, 'oconv, 'fsm) MPOGenerator" where
  "AddTerm P checked coef local_ops local_ops_idxs g =
     (if checked \<and> length local_ops \<noteq> length local_ops_idxs then Inl Gen_AssertionFailed
      else if checked \<and> \<not> sorted local_ops_idxs then Inl Gen_AssertionFailed
      else if checked \<and> local_ops_idxs = [] then Inl Gen_OutOfRange
      else if checked \<and> \<not> size_t_of_int (last local_ops_idxs) < member_N g then Inl Gen_AssertionFailed
      else if coef = 0 then Inr g
      else if local_ops_idxs = [] then Inl Gen_OutOfRange
      else
        (case coef_Convert P (coef_label_convertor g) coef of (coef_label, cconv) \<Rightarrow>
         let ntrvl_ops_idxs_head = hd local_ops_idxs;
             ntrvl_ops_idxs_tail = last local_ops_idxs
         in case ntrvl_ops_reprs_loop P (id_op_vector g) coef_label local_ops local_ops_idxs
                   ntrvl_ops_idxs_head ntrvl_ops_idxs_tail (op_label_convertor g) [] of
              Inl e \<Rightarrow> Inl e
            | Inr (ntrvl_ops_reprs, oconv) \<Rightarrow>
                if checked \<and>
                   int (length ntrvl_ops_reprs) \<noteq> ntrvl_ops_idxs_tail - ntrvl_ops_idxs_head + 1
                then Inl Gen_AssertionFailed
                else Inr (g\<lparr>coef_label_convertor := cconv, op_label_convertor := oconv,
                            fsm := AddPath P (fsm g) ntrvl_ops_idxs_head ntrvl_ops_idxs_tail
                                      ntrvl_ops_reprs\<rparr>)))"

text \<open>
  \<^verbatim>\<open>Gen\<close> reads \<open>N_\<close>, the finite-state machine and the two convertors, and builds the
  MPO from them.
\<close>

definition Gen ::
  "('coef, 'op, 'cconv, 'oconv, 'fsm, 'mpo) generator_parts
     \<Rightarrow> ('op, 'cconv, 'oconv, 'fsm) MPOGenerator \<Rightarrow> 'mpo" where
  "Gen P g = mpo_of_members P (member_N g) (fsm g) (coef_label_convertor g) (op_label_convertor g)"

text \<open>A sequence of calls of \<^verbatim>\<open>AddTerm\<close>, one for each term of the list, in order.\<close>

fun AddTerms ::
  "('coef::zero, 'op, 'cconv, 'oconv, 'fsm, 'mpo) generator_parts \<Rightarrow> bool
     \<Rightarrow> ('coef \<times> 'op list \<times> int list) list \<Rightarrow> ('op, 'cconv, 'oconv, 'fsm) MPOGenerator
     \<Rightarrow> gen_error + ('op, 'cconv, 'oconv, 'fsm) MPOGenerator" where
  "AddTerms P checked [] g = Inr g"
| "AddTerms P checked ((coef, local_ops, local_ops_idxs) # terms) g =
     (case AddTerm P checked coef local_ops local_ops_idxs g of
        Inl e \<Rightarrow> Inl e
      | Inr g' \<Rightarrow> AddTerms P checked terms g')"

text \<open>What the assertions of \<^verbatim>\<open>AddTerm\<close> ask of its arguments.\<close>

definition AddTerm_assertions :: "'op list \<Rightarrow> int list \<Rightarrow> nat \<Rightarrow> bool" where
  "AddTerm_assertions local_ops local_ops_idxs N =
     (length local_ops = length local_ops_idxs \<and> sorted local_ops_idxs \<and>
      local_ops_idxs \<noteq> [] \<and> size_t_of_int (last local_ops_idxs) < N)"

text \<open>
  A concrete generator for two sites: the convertors are the lists of the objects
  registered so far (the label of an object is its position), the finite-state machine
  is the list of its paths, and the MPO is represented by the members it is built from.
\<close>

definition list_Convert :: "'a list \<Rightarrow> 'a \<Rightarrow> nat \<times> 'a list" where
  "list_Convert objs x =
     (if x \<in> set objs then (find_position x objs, objs) else (length objs, objs @ [x]))"

definition list_parts ::
  "(int, string, int list, string list, (int \<times> int \<times> OpRepr list) list,
    nat \<times> (int \<times> int \<times> OpRepr list) list \<times> int list \<times> string list) generator_parts" where
  "list_parts =
     \<lparr>coef_Convert = list_Convert, op_Convert = list_Convert,
      AddPath = (\<lambda>fsm head tail reprs. fsm @ [(head, tail, reprs)]),
      mpo_of_members = (\<lambda>N fsm cconv oconv. (N, fsm, cconv, oconv))\<rparr>"

definition two_site_generator ::
  "(string, int list, string list, (int \<times> int \<times> OpRepr list) list) MPOGenerator" where
  "two_site_generator =
     \<lparr>member_N = 2, id_op_vector = [''id'', ''id''], op_label_convertor = [''id''],
      coef_label_convertor = [1], fsm = []\<rparr>"

section \<open>The fan-in of the expansion (MasterTwoSiteFiniteVMPSRightMovingExpand, LeftMovingExpand)\<close>

text \<open>
  Both expansion functions of the master collect the results of the slaves in the same
  way. A thread of the master talks to one slave, \<^verbatim>\<open>controlling_slave\<close>; what it does is a
  list of receives \<^verbatim>\<open>bsdt.MPIRecv(world, source, tag)\<close> into an element of \<^verbatim>\<open>res_list\<close> and
  of sends \<^verbatim>\<open>world.send(dest, tag, value)\<close>.
\<close>

datatype fan_in_action =
    MPIRecv nat nat nat
  | world_send nat nat nat





text \<open>The tasks a thread hands to its slave: the values it sends, the finish signal apart.\<close>

definition scheduled_tasks :: "nat \<Rightarrow> fan_in_action list \<Rightarrow> nat list" where
  "scheduled_tasks task_size actions =
     concat (map (\<lambda>a. case a of world_send dest tag v \<Rightarrow> (if v = 2 * task_size then [] else [v])
                             | MPIRecv source tag idx \<Rightarrow> []) actions)"

section \<open>The truncation of the distributed SVD (MPISVDMaster)\<close>

text \<open>
  Modelled from the spec: \<^verbatim>\<open>MPISVDMaster\<close> is called by the bond update with
  \<^verbatim>\<open>trunc_err\<close>, \<^verbatim>\<open>Dmin\<close> and \<^verbatim>\<open>Dmax\<close> and gives back \<^verbatim>\<open>actual_trunc_err\<close> and \<^verbatim>\<open>D\<close>; its
  body is outside the files modelled here. The spec gives its contract: ``given target
  minimum/maximum bond dimension and an absolute truncation-error budget, discards the
  smallest singular values first, subject to: never drop below Dmin singular values even
  if error budget is exceeded; never keep more than Dmax; actual truncation error achieved
  is reported back''. The truncation error is taken as the sum of the squares of the
  discarded singular values.

  \<open>discard_smallest\<close> goes through the singular values from the smallest on; \<open>err\<close> is the
  error of what is discarded so far, and the result is the number of values kept with
  the error reached. A value is kept, and the walk ends, when no more than \<open>Dmin\<close> values
  are left; it is discarded when more than \<open>Dmax\<close> are left; otherwise it is discarded
  as long as the error stays within the budget.
\<close>

fun discard_smallest :: "nat \<Rightarrow> nat \<Rightarrow> real \<Rightarrow> real list \<Rightarrow> real \<Rightarrow> nat \<times> real" where
  "discard_smallest Dmin Dmax trunc_err [] err = (0, err)"
| "discard_smallest Dmin Dmax trunc_err (sv # svs) err =
     (let left = Suc (length svs) in
      if left \<le> Dmin then (left, err)
      else if Dmax < left then discard_smallest Dmin Dmax trunc_err svs (err + sv\<^sup>2)
      else if err + sv\<^sup>2 \<le> trunc_err then discard_smallest Dmin Dmax trunc_err svs (err + sv\<^sup>2)
      else (left, err))"

text \<open>
  Modelled from the spec: the truncation of \<^verbatim>\<open>MPISVDMaster\<close> on the singular values of
  the matrix, in any order; the result is \<open>(D, actual_trunc_err)\<close>.
\<close>

definition MPISVDMaster :: "real \<Rightarrow> nat \<Rightarrow> nat \<Rightarrow> real list \<Rightarrow> nat \<times> real" where
  "MPISVDMaster trunc_err Dmin Dmax singular_values =
     discard_smallest Dmin Dmax trunc_err (sort singular_values) 0"

section \<open>Reading a trace\<close>

text \<open>
  The properties below speak about parts of a trace: the orders broadcast, the bond
  updates (direction and target site), the noise handed to each sweep, and the sites whose
  MPS tensor was assigned.
\<close>

definition select :: "(master_event \<Rightarrow> 'a list) \<Rightarrow> master_event list \<Rightarrow> 'a list" where
  "select f evs = concat (map f evs)"

definition broadcasts :: "master_event list \<Rightarrow> MPS_AlGO_ORDER list" where
  "broadcasts = select (\<lambda>e. case e of Broadcast order \<Rightarrow> [order] | _ \<Rightarrow> [])"

definition bond_updates :: "master_event list \<Rightarrow> (char \<times> nat) list" where
  "bond_updates =
     select (\<lambda>e. case e of Called_MasterTwoSiteFiniteVMPSUpdate dir t noise \<Rightarrow> [(dir, t)] | _ \<Rightarrow> [])"

definition sweep_noises :: "master_event list \<Rightarrow> real list" where
  "sweep_noises = select (\<lambda>e. case e of Called_TwoSiteFiniteVMPSSweep noise \<Rightarrow> [noise] | _ \<Rightarrow> [])"

definition assigned_sites :: "master_event list \<Rightarrow> nat list" where
  "assigned_sites = select (\<lambda>e. case e of Assigned_mps i \<Rightarrow> [i] | _ \<Rightarrow> [])"

text \<open>The trace of a run that ended normally.\<close>

definition result_trace :: "master_error + master_state \<Rightarrow> master_event list" where
  "result_trace r = (case r of Inl e \<Rightarrow> [] | Inr s \<Rightarrow> trace s)"

text \<open>
  Concrete inputs: collaborators that leave the storage as it is, a master that has done
  nothing yet, and a master at the start of a sweep over six sites with the boundaries
  \<open>(1, 4)\<close>, where the initialisation has left the left environment of length 1 and the
  right environments of lengths 1, 2 and 3 on disk.
\<close>

definition idle_collaborators :: collaborators where
  "idle_collaborators =
     \<lparr>DumpRelatedTensOnTwoSiteAlgWhenRightMoving = (\<lambda>i st. st),
      DumpRelatedTensOnTwoSiteAlgWhenLeftMoving = (\<lambda>i st. st),
      TwoSiteFiniteVMPSInit_effect = (\<lambda>st. st)\<rparr>"

definition fresh_state :: master_state where
  "fresh_state =
     \<lparr>store = \<lparr>mps_mem = {}, lenvs_mem = {}, renvs_mem = {}, env_files = {}\<rparr>, trace = []\<rparr>"

definition boundary_disk :: master_state where
  "boundary_disk =
     \<lparr>store = \<lparr>mps_mem = {1, 2}, lenvs_mem = {}, renvs_mem = {},
               env_files = {(CHR ''l'', 1), (CHR ''r'', 1), (CHR ''r'', 2), (CHR ''r'', 3)}\<rparr>,
      trace = []\<rparr>"

text \<open>
  The events that each function adds to the trace when its indices are in range; the
  lemmas of the next section prove that it adds exactly these.
\<close>

definition load_right_events :: "nat \<Rightarrow> nat \<Rightarrow> nat \<Rightarrow> master_event list" where
  "load_right_events N t lb =
     [Loaded_mps (t + 2), Loaded_env (CHR ''r'') (N - (t + 2)),
      Removed_file (CHR ''r'') (N - (t + 2))] @
     (if t = lb then [Loaded_env (CHR ''l'') t] else [])"

definition load_left_events :: "nat \<Rightarrow> nat \<Rightarrow> nat \<Rightarrow> master_event list" where
  "load_left_events N t rb =
     (if t = rb
      then [Loaded_mps (t - 2), Loaded_env (CHR ''r'') (N - 1 - t), Removed_file (CHR ''l'') (t - 1)]
      else [Loaded_mps (t - 2), Loaded_env (CHR ''l'') (t - 1), Removed_file (CHR ''l'') (t - 1)])"

definition lsite_of :: "char \<Rightarrow> nat \<Rightarrow> nat" where
  "lsite_of dir t = (if dir = CHR ''r'' then t else t - 1)"

definition update_events :: "nat \<Rightarrow> char \<Rightarrow> nat \<Rightarrow> real \<Rightarrow> master_event list" where
  "update_events N dir t noise =
     [Called_MasterTwoSiteFiniteVMPSUpdate dir t noise, Broadcast lanczos,
      Called_MasterLanczosSolver] @
     (if \<bar>noise\<bar> \<ge> noise_floor then
        (if dir = CHR ''r''
         then [Broadcast contract_for_right_moving_expansion,
               Called_expansion_fan_in (CHR ''r''), Assigned_mps (t + 2)]
         else [Broadcast contract_for_left_moving_expansion,
               Called_expansion_fan_in (CHR ''l''), Assigned_mps (t - 2)])
      else []) @
     [Broadcast svd, Called_MPISVDMaster,
      Assigned_mps (lsite_of dir t), Assigned_mps (lsite_of dir t + 1)] @
     (if dir = CHR ''r''
      then [Broadcast growing_left_env, Called_MasterGrowLeftEnvironment,
            Assigned_env (CHR ''l'') (t + 1)]
      else [Broadcast growing_right_env, Called_MasterGrowRightEnvironment,
            Assigned_env (CHR ''r'') (N - t)])"

definition update_orders :: "char \<Rightarrow> real \<Rightarrow> MPS_AlGO_ORDER list" where
  "update_orders dir noise =
     [lanczos] @
     (if noise_floor \<le> \<bar>noise\<bar>
      then [if dir = CHR ''r'' then contract_for_right_moving_expansion
            else contract_for_left_moving_expansion]
      else []) @
     [svd, if dir = CHR ''r'' then growing_left_env else growing_right_env]"

definition right_loop_events :: "nat \<Rightarrow> nat \<Rightarrow> nat \<Rightarrow> real \<Rightarrow> nat \<Rightarrow> master_event list" where
  "right_loop_events N lb rb noise i =
     concat (map (\<lambda>j. load_right_events N j lb @ update_events N (CHR ''r'') j noise)
               [i..<rb - 1])"

definition left_loop_events :: "nat \<Rightarrow> nat \<Rightarrow> nat \<Rightarrow> real \<Rightarrow> nat \<Rightarrow> master_event list" where
  "left_loop_events N lb rb noise i =
     concat (map (\<lambda>j. load_left_events N j rb @ update_events N (CHR ''l'') j noise)
               (rev [lb + 2..<i + 1]))"

definition sweep_events :: "nat \<Rightarrow> nat \<Rightarrow> nat \<Rightarrow> real \<Rightarrow> master_event list" where
  "sweep_events N lb rb noise =
     Called_TwoSiteFiniteVMPSSweep noise #
     right_loop_events N lb rb noise lb @ left_loop_events N lb rb noise rb"

text \<open>The entry of the noise list that sweep \<open>k + 1\<close> runs with: its own, or else the last.\<close>

definition held_noise :: "real list \<Rightarrow> nat \<Rightarrow> real" where
  "held_noise noises k = noises ! min k (length noises - 1)"

definition sweeps_events ::
  "nat \<Rightarrow> nat \<Rightarrow> nat \<Rightarrow> real list \<Rightarrow> nat \<Rightarrow> nat \<Rightarrow> master_event list" where
  "sweeps_events N lb rb noises sweeps sweep =
     concat (map (\<lambda>j. Printed_sweep j # sweep_events N lb rb (held_noise noises (j - 1)))
               [sweep..<sweeps + 1])"

definition master_events :: "nat \<Rightarrow> nat \<Rightarrow> nat \<Rightarrow> real list \<Rightarrow> nat \<Rightarrow> master_event list" where
  "master_events N lb rb noises sweeps =
     [Broadcast program_start, Called_TwoSiteFiniteVMPSInit, Loaded_mps lb, Loaded_mps (lb + 1)] @
     sweeps_events N lb rb (if noises = [] then [0] else noises) sweeps 1 @
     [Dumped_mps lb, Dumped_mps (lb + 1), Broadcast program_final]"

section \<open>Properties of the slave loop\<close>

lemma slave_loop_final [simp]:
  "slave_loop N program_final eff_ham inbox lsite_idxs =
     \<lparr>effects = [], outcome = Returned, unread = inbox\<rparr>"
  by simp

lemma slave_loop_empty [simp]:
  "order \<noteq> program_final \<Longrightarrow>
   slave_loop N order eff_ham [] lsite_idxs =
     \<lparr>effects = [], outcome = AwaitingBroadcast, unread = []\<rparr>"
  by simp

lemma slave_loop_cons:
  "order \<noteq> program_final \<Longrightarrow>
   slave_loop N order eff_ham (received # rest) lsite_idxs =
     (case slave_switch N received eff_ham lsite_idxs of
        AbortJob e \<Rightarrow> \<lparr>effects = [e], outcome = Aborted, unread = rest\<rparr>
      | AwaitSite \<Rightarrow> \<lparr>effects = [], outcome = AwaitingSiteIndex, unread = rest\<rparr>
      | Undefined \<Rightarrow> \<lparr>effects = [], outcome = UndefinedBehaviour, unread = rest\<rparr>
      | Proceed e eff_ham' later \<Rightarrow>
          after_effect e (slave_loop N received eff_ham' rest later))"
  by simp

declare slave_loop.simps [simp del]

lemma outcome_after_effect [simp]: "outcome (after_effect e r) = outcome r"
  by (simp add: after_effect_def)

lemma effects_after_effect [simp]: "effects (after_effect e r) = e # effects r"
  by (simp add: after_effect_def)

lemma slave_switch_abort:
  "abort_inducing order \<Longrightarrow>
   slave_switch N order eff_ham lsite_idxs = AbortJob (PrintNoFunctionality order)"
  by (cases order) (simp_all add: abort_inducing_def)

lemma slave_switch_unrecognized:
  "unrecognized order \<Longrightarrow>
   slave_switch N order eff_ham lsite_idxs = Proceed (PrintNotUnderstood order) eff_ham lsite_idxs"
  by (cases order) (simp_all add: unrecognized_def)

lemma slave_switch_lanczos:
  assumes "lsite_idx + 1 < N"
  shows "\<exists>eff_ham'. slave_switch N lanczos eff_ham (lsite_idx # later) =
           Proceed CallSlaveLanczosSolver eff_ham' later \<and> ready N eff_ham'"
proof -
  have "(lsite_idx + 1) mod 2 ^ 64 \<le> lsite_idx + 1"
    by (rule mod_less_eq_dividend)
  then have "(lsite_idx + 1) mod 2 ^ 64 < N" "lsite_idx < N"
    using assms by simp_all
  then show ?thesis
    by (simp add: Let_def ready_def dereferenceable_def)
qed

lemma slave_switch_growing_left:
  assumes "ready N eff_ham"
  shows "\<exists>eff_ham'. slave_switch N growing_left_env eff_ham lsite_idxs =
           Proceed CallSlaveGrowLeftEnvironment eff_ham' lsite_idxs"
  using assms by (simp add: ready_def delete_tensor_def dereferenceable_def)

lemma slave_switch_growing_right:
  assumes "ready N eff_ham"
  shows "\<exists>eff_ham'. slave_switch N growing_right_env eff_ham lsite_idxs =
           Proceed CallSlaveGrowRightEnvironment eff_ham' lsite_idxs"
  using assms by (simp add: ready_def delete_tensor_def dereferenceable_def)

lemma slave_switch_plain:
  assumes "\<not> abort_inducing order" and "order \<noteq> lanczos"
    and "order \<noteq> growing_left_env" and "order \<noteq> growing_right_env"
  shows "slave_switch N order eff_ham lsite_idxs = Proceed (effect_of order) eff_ham lsite_idxs"
  using assms by (cases order) (simp_all add: abort_inducing_def effect_of_def)

text \<open>
  A prefix of orders that neither abort nor stop the loop and that keeps the discipline
  towards \<^verbatim>\<open>eff_ham\<close>, with a site index inside \<^verbatim>\<open>mpo\<close> for each \<^verbatim>\<open>lanczos\<close>, is worked off
  one by one; the loop then stands before the rest with the last of them in \<^verbatim>\<open>order\<close>.
\<close>

lemma slave_loop_prefix:
  assumes "order \<noteq> program_final"
    and "\<forall>x \<in> set pre. \<not> abort_inducing x \<and> x \<noteq> program_final"
    and "growth_follows_lanczos fresh pre"
    and "fresh \<longrightarrow> ready N eff_ham"
    and "lanczos_count pre \<le> length lsite_idxs"
    and "\<forall>i \<in> set (take (lanczos_count pre) lsite_idxs). i + 1 < N"
  shows "\<exists>eff_ham'. slave_loop N order eff_ham (pre @ coming) lsite_idxs =
           (let r = slave_loop N (last (order # pre)) eff_ham' coming
                      (drop (lanczos_count pre) lsite_idxs)
            in r\<lparr>effects := map effect_of pre @ effects r\<rparr>)"
  using assms
proof (induction pre arbitrary: order eff_ham lsite_idxs fresh)
  case Nil
  have "slave_loop N order eff_ham ([] @ coming) lsite_idxs =
           (let r = slave_loop N (last [order]) eff_ham coming (drop (lanczos_count []) lsite_idxs)
            in r\<lparr>effects := map effect_of [] @ effects r\<rparr>)"
    by (simp add: lanczos_count_def)
  then show ?case by blast
next
  case (Cons x pre)
  have x: "\<not> abort_inducing x" "x \<noteq> program_final"
    using Cons.prems(2) by simp_all
  have rest: "\<forall>y \<in> set pre. \<not> abort_inducing y \<and> y \<noteq> program_final"
    using Cons.prems(2) by simp
  consider (lanczos) "x = lanczos"
    | (growth) "x = growing_left_env \<or> x = growing_right_env"
    | (plain) "x \<noteq> lanczos" "x \<noteq> growing_left_env" "x \<noteq> growing_right_env"
    by blast
  then show ?case
  proof cases
    case lanczos
    from Cons.prems(5) lanczos obtain lsite_idx later where
      sites: "lsite_idxs = lsite_idx # later" and count: "lanczos_count pre \<le> length later"
      by (cases lsite_idxs) (simp_all add: lanczos_count_def)
    have inside: "lsite_idx + 1 < N" "\<forall>i \<in> set (take (lanczos_count pre) later). i + 1 < N"
      using Cons.prems(6) sites lanczos by (simp_all add: lanczos_count_def)
    obtain eff_ham1 where
      step: "slave_switch N lanczos eff_ham (lsite_idx # later) =
               Proceed CallSlaveLanczosSolver eff_ham1 later"
      and ready1: "ready N eff_ham1"
      using slave_switch_lanczos [OF inside(1)] by blast
    have disc: "growth_follows_lanczos True pre"
      using Cons.prems(3) lanczos by simp
    from Cons.IH [OF x(2) rest disc _ count inside(2), of eff_ham1] ready1
    obtain eff_ham' where
      "slave_loop N x eff_ham1 (pre @ coming) later =
         (let r = slave_loop N (last (x # pre)) eff_ham' coming (drop (lanczos_count pre) later)
          in r\<lparr>effects := map effect_of pre @ effects r\<rparr>)"
      by blast
    then have "slave_loop N order eff_ham ((x # pre) @ coming) lsite_idxs =
         (let r = slave_loop N (last (order # x # pre)) eff_ham' coming
                    (drop (lanczos_count (x # pre)) lsite_idxs)
          in r\<lparr>effects := map effect_of (x # pre) @ effects r\<rparr>)"
      using Cons.prems(1) step lanczos sites
      by (simp add: slave_loop_cons after_effect_def Let_def lanczos_count_def effect_of_def)
    then show ?thesis by blast
  next
    case growth
    then have fresh: "fresh" and disc: "growth_follows_lanczos False pre"
      using Cons.prems(3) by auto
    then have "ready N eff_ham"
      using Cons.prems(4) by simp
    then obtain eff_ham1 where
      step: "slave_switch N x eff_ham lsite_idxs = Proceed (effect_of x) eff_ham1 lsite_idxs"
      using growth slave_switch_growing_left [of N eff_ham lsite_idxs]
        slave_switch_growing_right [of N eff_ham lsite_idxs]
      by (auto simp: effect_of_def)
    have count: "lanczos_count pre \<le> length lsite_idxs"
      using Cons.prems(5) growth by (auto simp: lanczos_count_def)
    have inside: "\<forall>i \<in> set (take (lanczos_count pre) lsite_idxs). i + 1 < N"
      using Cons.prems(6) growth by (auto simp: lanczos_count_def)
    from Cons.IH [OF x(2) rest disc _ count inside, of eff_ham1]
    obtain eff_ham' where
      "slave_loop N x eff_ham1 (pre @ coming) lsite_idxs =
         (let r = slave_loop N (last (x # pre)) eff_ham' coming
                    (drop (lanczos_count pre) lsite_idxs)
          in r\<lparr>effects := map effect_of pre @ effects r\<rparr>)"
      by blast
    then have "slave_loop N order eff_ham ((x # pre) @ coming) lsite_idxs =
         (let r = slave_loop N (last (order # x # pre)) eff_ham' coming
                    (drop (lanczos_count (x # pre)) lsite_idxs)
          in r\<lparr>effects := map effect_of (x # pre) @ effects r\<rparr>)"
      using Cons.prems(1) step growth
      by (auto simp: slave_loop_cons after_effect_def Let_def lanczos_count_def)
    then show ?thesis by blast
  next
    case plain
    have step: "slave_switch N x eff_ham lsite_idxs = Proceed (effect_of x) eff_ham lsite_idxs"
      using slave_switch_plain [OF x(1) plain] .
    have disc: "growth_follows_lanczos fresh pre"
      using Cons.prems(3) plain by simp
    have count: "lanczos_count pre \<le> length lsite_idxs"
      using Cons.prems(5) plain by (simp add: lanczos_count_def)
    have inside: "\<forall>i \<in> set (take (lanczos_count pre) lsite_idxs). i + 1 < N"
      using Cons.prems(6) plain by (simp add: lanczos_count_def)
    from Cons.IH [OF x(2) rest disc Cons.prems(4) count inside]
    obtain eff_ham' where
      "slave_loop N x eff_ham (pre @ coming) lsite_idxs =
         (let r = slave_loop N (last (x # pre)) eff_ham' coming
                    (drop (lanczos_count pre) lsite_idxs)
          in r\<lparr>effects := map effect_of pre @ effects r\<rparr>)"
      by blast
    then have "slave_loop N order eff_ham ((x # pre) @ coming) lsite_idxs =
         (let r = slave_loop N (last (order # x # pre)) eff_ham' coming
                    (drop (lanczos_count (x # pre)) lsite_idxs)
          in r\<lparr>effects := map effect_of (x # pre) @ effects r\<rparr>)"
      using Cons.prems(1) step plain
      by (simp add: slave_loop_cons after_effect_def Let_def lanczos_count_def)
    then show ?thesis by blast
  qed
qed

lemma last_not_final:
  assumes "order \<noteq> program_final" and "\<forall>x \<in> set pre. x \<noteq> program_final"
  shows "last (order # pre) \<noteq> program_final"
  using assms by (induction pre arbitrary: order) auto

text \<open>
  A run that ends blocked in the receive of an order has worked off all its orders; with
  more orders it goes on from there.
\<close>

lemma slave_loop_continues:
  assumes "outcome (slave_loop N order eff_ham pre lsite_idxs) = AwaitingBroadcast"
  shows "\<exists>order' eff_ham' later. order' \<noteq> program_final \<and>
           slave_loop N order eff_ham (pre @ coming) lsite_idxs =
             (let r = slave_loop N order' eff_ham' coming later
              in r\<lparr>effects := effects (slave_loop N order eff_ham pre lsite_idxs) @ effects r\<rparr>)"
  using assms
proof (induction pre arbitrary: order eff_ham lsite_idxs)
  case Nil
  have nf: "order \<noteq> program_final"
    using Nil by (cases "order = program_final") simp_all
  then have "slave_loop N order eff_ham ([] @ coming) lsite_idxs =
             (let r = slave_loop N order eff_ham coming lsite_idxs
              in r\<lparr>effects := effects (slave_loop N order eff_ham [] lsite_idxs) @ effects r\<rparr>)"
    by simp
  then show ?case
    using nf by blast
next
  case (Cons x pre)
  have nf: "order \<noteq> program_final"
    using Cons.prems by (cases "order = program_final") simp_all
  show ?case
  proof (cases "slave_switch N x eff_ham lsite_idxs")
    case (Proceed e eff_ham1 later1)
    then have "outcome (slave_loop N x eff_ham1 pre later1) = AwaitingBroadcast"
      using Cons.prems nf by (simp add: slave_loop_cons)
    from Cons.IH [OF this]
    obtain order' eff_ham' later where r: "order' \<noteq> program_final"
      "slave_loop N x eff_ham1 (pre @ coming) later1 =
         (let r = slave_loop N order' eff_ham' coming later
          in r\<lparr>effects := effects (slave_loop N x eff_ham1 pre later1) @ effects r\<rparr>)"
      by blast
    have "slave_loop N order eff_ham ((x # pre) @ coming) lsite_idxs =
         (let r = slave_loop N order' eff_ham' coming later
          in r\<lparr>effects := effects (slave_loop N order eff_ham (x # pre) lsite_idxs) @ effects r\<rparr>)"
      using nf Proceed r(2) by (simp add: slave_loop_cons after_effect_def Let_def)
    then show ?thesis
      using r(1) by blast
  next
    case (AbortJob e)
    then show ?thesis
      using Cons.prems nf by (simp add: slave_loop_cons)
  next
    case AwaitSite
    then show ?thesis
      using Cons.prems nf by (simp add: slave_loop_cons)
  next
    case Undefined
    then show ?thesis
      using Cons.prems nf by (simp add: slave_loop_cons)
  qed
qed

text \<open>
  C7. When the TDVP slave receives \<open>contract_for_right_moving_expansion\<close> or
  \<open>contract_for_left_moving_expansion\<close>, it prints that it lacks the functionality and
  aborts the whole job, whatever \<^verbatim>\<open>eff_ham\<close> holds: the case of the \<^verbatim>\<open>switch\<close> is the abort.
  So whenever the loop has worked off the orders \<open>pre\<close> and stands in the receive, and the
  order arrives, the run ends as \<open>Aborted\<close>, the abort message is its last effect, and no
  later order is read: the order is neither skipped nor followed by another pass of the
  loop.
\<close>

theorem tdvp_slave_aborts_on_expansion_order:
  assumes "abort_inducing received"
    and "outcome (SlaveTwoSiteFiniteTDVP N pre lsite_idxs) = AwaitingBroadcast"
  shows "slave_switch N received eff_ham later = AbortJob (PrintNoFunctionality received)
         \<and> SlaveTwoSiteFiniteTDVP N (pre @ received # rest) lsite_idxs =
             \<lparr>effects = effects (SlaveTwoSiteFiniteTDVP N pre lsite_idxs) @
                          [PrintNoFunctionality received],
              outcome = Aborted, unread = rest\<rparr>"
proof
  show "slave_switch N received eff_ham later = AbortJob (PrintNoFunctionality received)"
    using assms(1) by (rule slave_switch_abort)
next
  from slave_loop_continues [OF assms(2) [unfolded SlaveTwoSiteFiniteTDVP_def],
      of "received # rest"]
  obtain order' eff_ham' later' where r: "order' \<noteq> program_final"
    "slave_loop N program_start null_eff_ham (pre @ received # rest) lsite_idxs =
       (let r = slave_loop N order' eff_ham' (received # rest) later'
        in r\<lparr>effects := effects (slave_loop N program_start null_eff_ham pre lsite_idxs) @
                           effects r\<rparr>)"
    by blast
  have "slave_loop N order' eff_ham' (received # rest) later' =
          \<lparr>effects = [PrintNoFunctionality received], outcome = Aborted, unread = rest\<rparr>"
    using r(1) assms(1) by (simp add: slave_loop_cons slave_switch_abort)
  then show "SlaveTwoSiteFiniteTDVP N (pre @ received # rest) lsite_idxs =
             \<lparr>effects = effects (SlaveTwoSiteFiniteTDVP N pre lsite_idxs) @
                          [PrintNoFunctionality received],
              outcome = Aborted, unread = rest\<rparr>"
    using r(2) by (simp add: SlaveTwoSiteFiniteTDVP_def Let_def)
qed

lemma run_start_lanczos_svd:
  "SlaveTwoSiteFiniteTDVP 4 [program_start, lanczos, svd] [2] =
     \<lparr>effects = [SendRankToMaster, CallSlaveLanczosSolver, CallMPISVDSlave],
      outcome = AwaitingBroadcast, unread = []\<rparr>"
  by (simp add: SlaveTwoSiteFiniteTDVP_def slave_loop_cons after_effect_def Let_def)

theorem tdvp_slave_aborts_on_expansion_order_witness:
  "SlaveTwoSiteFiniteTDVP 4
     ([program_start, lanczos, svd] @ contract_for_left_moving_expansion # [svd, program_final])
     [2] =
   \<lparr>effects = [SendRankToMaster, CallSlaveLanczosSolver, CallMPISVDSlave,
               PrintNoFunctionality contract_for_left_moving_expansion],
    outcome = Aborted, unread = [svd, program_final]\<rparr>"
  using tdvp_slave_aborts_on_expansion_order
    [of contract_for_left_moving_expansion 4 "[program_start, lanczos, svd]" "[2]"
        null_eff_ham "[]" "[svd, program_final]"]
  by (simp add: abort_inducing_def run_start_lanczos_svd)

text \<open>
  C8, as the code has it. For every finite sequence of broadcast orders without an
  abort-inducing order that ends with \<open>program_final\<close>, in which (before the first
  \<open>program_final\<close>) every growth order comes after a \<^verbatim>\<open>lanczos\<close> order with no other
  growth order in between, and every \<^verbatim>\<open>lanczos\<close> order comes with a site index
  \<^verbatim>\<open>lsite_idx\<close> such that \<^verbatim>\<open>lsite_idx + 1\<close> is a site of \<^verbatim>\<open>mpo\<close>: the slave loop returns,
  and it does so exactly upon processing \<open>program_final\<close>. It has worked off the orders
  before the first \<open>program_final\<close> one by one, printed its stop message, and read nothing
  beyond. An order the \<^verbatim>\<open>switch\<close> has no case for is reported (\<open>PrintNotUnderstood\<close>),
  changes nothing, and the loop goes on to the next receive.
\<close>

theorem tdvp_slave_returns_on_program_final:
  assumes "inbox \<noteq> []" and "last inbox = program_final"
    and "\<forall>x \<in> set inbox. \<not> abort_inducing x"
    and "growth_follows_lanczos False (before_final inbox)"
    and "lanczos_count (before_final inbox) \<le> length lsite_idxs"
    and "\<forall>i \<in> set (take (lanczos_count (before_final inbox)) lsite_idxs). i + 1 < N"
  shows "SlaveTwoSiteFiniteTDVP N inbox lsite_idxs =
           \<lparr>effects = map effect_of (before_final inbox) @ [PrintWillStop],
            outcome = Returned,
            unread = tl (dropWhile (\<lambda>x. x \<noteq> program_final) inbox)\<rparr>
         \<and> (\<forall>x order eff_ham rest later. unrecognized x \<and> order \<noteq> program_final \<longrightarrow>
               slave_loop N order eff_ham (x # rest) later =
                 after_effect (PrintNotUnderstood x) (slave_loop N x eff_ham rest later))"
proof
  define pre where "pre = before_final inbox"
  define post where "post = dropWhile (\<lambda>x. x \<noteq> program_final) inbox"
  have fin: "program_final \<in> set inbox"
    using assms(1,2) last_in_set by metis
  have split: "inbox = pre @ post"
    by (simp add: pre_def post_def before_final_def)
  have "post \<noteq> []"
    using fin by (simp add: post_def)
  moreover have "hd post = program_final"
    using fin hd_dropWhile [of "\<lambda>x. x \<noteq> program_final" inbox] by (auto simp: post_def)
  ultimately have post: "post = program_final # tl post"
    by (cases post) simp_all
  have pre: "\<forall>x \<in> set pre. \<not> abort_inducing x \<and> x \<noteq> program_final"
  proof
    fix x assume x: "x \<in> set pre"
    then have "x \<in> set inbox" "x \<noteq> program_final"
      by (auto simp: pre_def before_final_def dest: set_takeWhileD)
    then show "\<not> abort_inducing x \<and> x \<noteq> program_final"
      using assms(3) by simp
  qed
  have nf: "last (program_start # pre) \<noteq> program_final"
    using pre by (intro last_not_final) simp_all
  from slave_loop_prefix [of program_start pre False N null_eff_ham lsite_idxs
      "program_final # tl post"] pre assms(4,5,6)
  obtain eff_ham' where
    "slave_loop N program_start null_eff_ham (pre @ program_final # tl post) lsite_idxs =
       (let r = slave_loop N (last (program_start # pre)) eff_ham' (program_final # tl post)
                  (drop (lanczos_count pre) lsite_idxs)
        in r\<lparr>effects := map effect_of pre @ effects r\<rparr>)"
    unfolding pre_def by auto
  moreover have "slave_loop N (last (program_start # pre)) eff_ham' (program_final # tl post)
                  (drop (lanczos_count pre) lsite_idxs) =
          \<lparr>effects = [PrintWillStop], outcome = Returned, unread = tl post\<rparr>"
    using nf by (simp add: slave_loop_cons after_effect_def)
  ultimately have
    "slave_loop N program_start null_eff_ham (pre @ program_final # tl post) lsite_idxs =
       \<lparr>effects = map effect_of pre @ [PrintWillStop], outcome = Returned, unread = tl post\<rparr>"
    by (simp add: Let_def)
  then show "SlaveTwoSiteFiniteTDVP N inbox lsite_idxs =
           \<lparr>effects = map effect_of (before_final inbox) @ [PrintWillStop],
            outcome = Returned,
            unread = tl (dropWhile (\<lambda>x. x \<noteq> program_final) inbox)\<rparr>"
    unfolding SlaveTwoSiteFiniteTDVP_def
    using split post pre_def post_def by metis
next
  show "\<forall>x order eff_ham rest later. unrecognized x \<and> order \<noteq> program_final \<longrightarrow>
               slave_loop N order eff_ham (x # rest) later =
                 after_effect (PrintNotUnderstood x) (slave_loop N x eff_ham rest later)"
    by (simp add: slave_loop_cons slave_switch_unrecognized)
qed

theorem tdvp_slave_returns_on_program_final_witness:
  "SlaveTwoSiteFiniteTDVP 4
     [program_start, lanczos, lanczos_finish, svd, growing_left_env, program_final] [2] =
     \<lparr>effects = [SendRankToMaster, CallSlaveLanczosSolver, PrintNotUnderstood lanczos_finish,
                 CallMPISVDSlave, CallSlaveGrowLeftEnvironment, PrintWillStop],
      outcome = Returned, unread = []\<rparr>
   \<and> unrecognized lanczos_finish
   \<and> slave_loop 4 lanczos null_eff_ham [lanczos_finish] [] =
       after_effect (PrintNotUnderstood lanczos_finish)
         (slave_loop 4 lanczos_finish null_eff_ham [] [])"
  using tdvp_slave_returns_on_program_final
    [of "[program_start, lanczos, lanczos_finish, svd, growing_left_env, program_final]" "[2]" 4]
  by (simp add: abort_inducing_def unrecognized_def effect_of_def before_final_def
        lanczos_count_def)

text \<open>
  C8 as stated holds for every sequence of orders without an abort-inducing order that
  ends with \<open>program_final\<close>. A second growth order with no \<^verbatim>\<open>lanczos\<close> before it deletes
  \<^verbatim>\<open>eff_ham[3]\<close> a second time; a growth order before any \<^verbatim>\<open>lanczos\<close> hands \<^verbatim>\<open>*eff_ham[0]\<close>
  to the kernel while the pointer is null; a \<^verbatim>\<open>lanczos\<close> order with the last site as
  \<^verbatim>\<open>lsite_idx\<close> reads \<^verbatim>\<open>mpo[rsite_idx]\<close> beyond the end of \<^verbatim>\<open>mpo\<close>. None of these runs
  reaches \<open>program_final\<close> in a defined way.
\<close>

theorem growth_without_lanczos_counterexample:
  "outcome (SlaveTwoSiteFiniteTDVP 4
      [program_start, lanczos, svd, growing_left_env, growing_left_env, program_final] [2])
     = UndefinedBehaviour
   \<and> outcome (SlaveTwoSiteFiniteTDVP 4 [program_start, growing_right_env, program_final] [])
     = UndefinedBehaviour
   \<and> outcome (SlaveTwoSiteFiniteTDVP 4 [program_start, lanczos, program_final] [3])
     = UndefinedBehaviour"
  by (simp add: SlaveTwoSiteFiniteTDVP_def slave_loop_cons Let_def null_eff_ham_def
        delete_tensor_def dereferenceable_def)
section \<open>Properties of the master\<close>

declare right_moving_loop.simps [simp del] left_moving_loop.simps [simp del] sweeps_loop.simps [simp del]

subsection \<open>State and storage\<close>

lemma trace_emit [simp]: "trace (emit e s) = trace s @ [e]"
  by (simp add: emit_def)

lemma store_emit [simp]: "store (emit e s) = store s"
  by (simp add: emit_def)

lemma trace_on_store [simp]: "trace (on_store f s) = trace s"
  by (simp add: on_store_def)

lemma store_on_store [simp]: "store (on_store f s) = f (store s)"
  by (simp add: on_store_def)

lemma trace_MasterBroadcastOrder [simp]:
  "trace (MasterBroadcastOrder order s) = trace s @ [Broadcast order]"
  by (simp add: MasterBroadcastOrder_def)

lemma store_MasterBroadcastOrder [simp]: "store (MasterBroadcastOrder order s) = store s"
  by (simp add: MasterBroadcastOrder_def)

lemma trace_RemoveFile [simp]:
  "trace (RemoveFile side len s) = trace s @ [Removed_file side len]"
  by (simp add: RemoveFile_def)

lemma store_RemoveFile [simp]:
  "store (RemoveFile side len s) = (store s)\<lparr>env_files := env_files (store s) - {(side, len)}\<rparr>"
  by (simp add: RemoveFile_def)

lemma and_then_Inr: "and_then m f = Inr y \<longleftrightarrow> (\<exists>x. m = Inr x \<and> f x = Inr y)"
  by (cases m) simp_all

lemma index_below_Inr: "index_below n i s = Inr s' \<longleftrightarrow> i < n \<and> s' = s"
  by (auto simp: index_below_def)

lemma index_below_ok [simp]: "i < n \<Longrightarrow> index_below n i s = Inr s"
  by (simp add: index_below_def)

lemma index_below_bad [simp]: "\<not> i < n \<Longrightarrow> index_below n i s = Inl OutOfRange"
  by (simp add: index_below_def)

lemma size_t_sub_le [simp]: "b \<le> a \<Longrightarrow> size_t_sub a b = a - b"
  by (simp add: size_t_sub_def)

subsection \<open>The trace of each function\<close>

lemma LoadRight_events:
  assumes "t + 2 < N"
  shows "\<exists>s'. LoadRelatedTensOnTwoSiteAlgWhenRightMoving N t lb s = Inr s' \<and>
              trace s' = trace s @ load_right_events N t lb"
  using assms
  by (simp add: LoadRelatedTensOnTwoSiteAlgWhenRightMoving_def load_right_events_def
        mps_LoadTen_def renvs_LoadTen_def lenvs_LoadTen_def Let_def)

lemma LoadLeft_events:
  assumes "2 \<le> t" and "t < N"
  shows "\<exists>s'. LoadRelatedTensOnTwoSiteAlgWhenLeftMoving N t rb s = Inr s' \<and>
              trace s' = trace s @ load_left_events N t rb"
  using assms
  by (simp add: LoadRelatedTensOnTwoSiteAlgWhenLeftMoving_def load_left_events_def
        mps_LoadTen_def renvs_LoadTen_def lenvs_LoadTen_def Let_def)

lemma Update_right_events:
  assumes "t + 2 < N"
  shows "\<exists>s'. MasterTwoSiteFiniteVMPSUpdate N (CHR ''r'') t noise s = Inr s' \<and>
              trace s' = trace s @ update_events N (CHR ''r'') t noise \<and> store s' = store s"
  using assms
  by (simp add: MasterTwoSiteFiniteVMPSUpdate_def update_events_def lsite_of_def Let_def
        MasterTwoSiteFiniteVMPSRightMovingExpand_def)

lemma Update_left_events:
  assumes "2 \<le> t" and "t < N"
  shows "\<exists>s'. MasterTwoSiteFiniteVMPSUpdate N (CHR ''l'') t noise s = Inr s' \<and>
              trace s' = trace s @ update_events N (CHR ''l'') t noise \<and> store s' = store s"
  using assms
  by (simp add: MasterTwoSiteFiniteVMPSUpdate_def update_events_def lsite_of_def Let_def
        MasterTwoSiteFiniteVMPSLeftMovingExpand_def)

lemma right_loop_stop:
  "\<not> i \<le> size_t_sub rb 2 \<Longrightarrow> right_moving_loop C N lb rb noise i s = Inr s"
  by (simp add: right_moving_loop.simps)

lemma right_loop_step:
  "i \<le> size_t_sub rb 2 \<Longrightarrow>
   right_moving_loop C N lb rb noise i s =
     and_then (LoadRelatedTensOnTwoSiteAlgWhenRightMoving N i lb s) (\<lambda>s.
     and_then (MasterTwoSiteFiniteVMPSUpdate N (CHR ''r'') i noise s) (\<lambda>s.
     right_moving_loop C N lb rb noise (i + 1)
       (on_store (DumpRelatedTensOnTwoSiteAlgWhenRightMoving C i) s)))"
  by (simp add: right_moving_loop.simps)

lemma right_loop_events:
  assumes "2 \<le> rb" and "rb < N"
  shows "\<exists>s'. right_moving_loop C N lb rb noise i s = Inr s' \<and>
              trace s' = trace s @ right_loop_events N lb rb noise i"
proof (induction "rb - 1 - i" arbitrary: i s)
  case 0
  then have "\<not> i \<le> size_t_sub rb 2" and "right_loop_events N lb rb noise i = []"
    using assms by (simp_all add: right_loop_events_def)
  then show ?case
    by (simp add: right_loop_stop)
next
  case (Suc n)
  then have i: "i \<le> rb - 2" "i + 2 < N" "i < rb - 1"
    using assms by simp_all
  obtain s1 where s1: "LoadRelatedTensOnTwoSiteAlgWhenRightMoving N i lb s = Inr s1"
      "trace s1 = trace s @ load_right_events N i lb"
    using LoadRight_events [OF i(2)] by blast
  obtain s2 where s2: "MasterTwoSiteFiniteVMPSUpdate N (CHR ''r'') i noise s1 = Inr s2"
      "trace s2 = trace s1 @ update_events N (CHR ''r'') i noise"
    using Update_right_events [OF i(2)] by blast
  define s3 where "s3 = on_store (DumpRelatedTensOnTwoSiteAlgWhenRightMoving C i) s2"
  have "n = rb - 1 - (i + 1)"
    using Suc.hyps(2) by simp
  from Suc.hyps(1) [OF this, of s3]
  obtain s' where s': "right_moving_loop C N lb rb noise (i + 1) s3 = Inr s'"
      "trace s' = trace s3 @ right_loop_events N lb rb noise (i + 1)"
    by blast
  have "right_moving_loop C N lb rb noise i s = Inr s'"
    using i(1) assms(1) s1(1) s2(1) s'(1) by (simp add: right_loop_step s3_def)
  moreover have "[i..<rb - 1] = i # [i + 1..<rb - 1]"
    using i(3) by (simp add: upt_conv_Cons)
  then have "right_loop_events N lb rb noise i =
      load_right_events N i lb @ update_events N (CHR ''r'') i noise @
      right_loop_events N lb rb noise (i + 1)"
    by (simp add: right_loop_events_def)
  ultimately show ?case
    using s'(2) s1(2) s2(2) by (simp add: s3_def)
qed

lemma left_loop_stop:
  "\<not> lb + 2 \<le> i \<Longrightarrow> left_moving_loop C N lb rb noise i s = Inr s"
  by (simp add: left_moving_loop.simps)

lemma left_loop_step:
  "lb + 2 \<le> i \<Longrightarrow>
   left_moving_loop C N lb rb noise i s =
     and_then (LoadRelatedTensOnTwoSiteAlgWhenLeftMoving N i rb s) (\<lambda>s.
     and_then (MasterTwoSiteFiniteVMPSUpdate N (CHR ''l'') i noise s) (\<lambda>s.
     left_moving_loop C N lb rb noise (size_t_sub i 1)
       (on_store (DumpRelatedTensOnTwoSiteAlgWhenLeftMoving C i) s)))"
  by (simp add: left_moving_loop.simps)

lemma left_loop_events:
  assumes "i < N"
  shows "\<exists>s'. left_moving_loop C N lb rb noise i s = Inr s' \<and>
              trace s' = trace s @ left_loop_events N lb rb noise i"
  using assms
proof (induction i arbitrary: s)
  case 0
  then show ?case
    by (simp add: left_loop_stop left_loop_events_def)
next
  case (Suc i)
  show ?case
  proof (cases "lb + 2 \<le> Suc i")
    case False
    then show ?thesis
      by (simp add: left_loop_stop left_loop_events_def)
  next
    case True
    then have t: "2 \<le> Suc i" by simp
    obtain s1 where s1: "LoadRelatedTensOnTwoSiteAlgWhenLeftMoving N (Suc i) rb s = Inr s1"
        "trace s1 = trace s @ load_left_events N (Suc i) rb"
      using LoadLeft_events [OF t Suc.prems] by blast
    obtain s2 where s2: "MasterTwoSiteFiniteVMPSUpdate N (CHR ''l'') (Suc i) noise s1 = Inr s2"
        "trace s2 = trace s1 @ update_events N (CHR ''l'') (Suc i) noise"
      using Update_left_events [OF t Suc.prems] by blast
    define s3 where "s3 = on_store (DumpRelatedTensOnTwoSiteAlgWhenLeftMoving C (Suc i)) s2"
    have "i < N" using Suc.prems by simp
    from Suc.IH [OF this, of s3]
    obtain s' where s': "left_moving_loop C N lb rb noise i s3 = Inr s'"
        "trace s' = trace s3 @ left_loop_events N lb rb noise i"
      by blast
    have "left_moving_loop C N lb rb noise (Suc i) s = Inr s'"
      using True s1(1) s2(1) s'(1) by (simp add: left_loop_step s3_def)
    moreover have "rev [lb + 2..<Suc i + 1] = Suc i # rev [lb + 2..<i + 1]"
      using True by simp
    then have "left_loop_events N lb rb noise (Suc i) =
        load_left_events N (Suc i) rb @ update_events N (CHR ''l'') (Suc i) noise @
        left_loop_events N lb rb noise i"
      by (simp add: left_loop_events_def)
    ultimately show ?thesis
      using s'(2) s1(2) s2(2) by (simp add: s3_def)
  qed
qed

lemma Sweep_events:
  assumes "2 \<le> rb" and "rb < N"
  shows "\<exists>s'. TwoSiteFiniteVMPSSweep C N lb rb noise s = Inr s' \<and>
              trace s' = trace s @ sweep_events N lb rb noise"
proof -
  define s0 where "s0 = on_store (\<lambda>st. st\<lparr>lenvs_mem := {}, renvs_mem := {}\<rparr>)
                          (emit (Called_TwoSiteFiniteVMPSSweep noise) s)"
  obtain s1 where s1: "right_moving_loop C N lb rb noise lb s0 = Inr s1"
      "trace s1 = trace s0 @ right_loop_events N lb rb noise lb"
    using right_loop_events [OF assms] by blast
  obtain s2 where s2: "left_moving_loop C N lb rb noise rb s1 = Inr s2"
      "trace s2 = trace s1 @ left_loop_events N lb rb noise rb"
    using left_loop_events [OF assms(2)] by blast
  have "TwoSiteFiniteVMPSSweep C N lb rb noise s = Inr s2"
    using s1(1) s2(1) by (simp add: TwoSiteFiniteVMPSSweep_def Let_def s0_def)
  then show ?thesis
    using s1(2) s2(2) by (simp add: sweep_events_def s0_def)
qed

lemma sweeps_loop_stop:
  "\<not> sweep \<le> sweeps \<Longrightarrow> sweeps_loop C N lb rb noises sweeps sweep noise s = Inr s"
  by (simp add: sweeps_loop.simps)

lemma sweeps_loop_step:
  "sweep \<le> sweeps \<Longrightarrow>
   sweeps_loop C N lb rb noises sweeps sweep noise s =
     (let noise = (if size_t_sub sweep 1 < length noises
                   then Some (noises ! (size_t_sub sweep 1)) else noise);
          s = emit (Printed_sweep sweep) s
      in case noise of
           None \<Rightarrow> Inl UninitialisedRead
         | Some noise_value \<Rightarrow>
             and_then (TwoSiteFiniteVMPSSweep C N lb rb noise_value s)
               (\<lambda>s. sweeps_loop C N lb rb noises sweeps (sweep + 1) noise s))"
  by (simp add: sweeps_loop.simps)

lemma sweeps_loop_events:
  assumes "2 \<le> rb" and "rb < N" and "noises \<noteq> []"
    and "1 \<le> sweep" and "2 \<le> sweep \<Longrightarrow> noise = Some (held_noise noises (sweep - 2))"
  shows "\<exists>s'. sweeps_loop C N lb rb noises sweeps sweep noise s = Inr s' \<and>
              trace s' = trace s @ sweeps_events N lb rb noises sweeps sweep"
  using assms(4,5)
proof (induction "sweeps + 1 - sweep" arbitrary: sweep noise s)
  case 0
  then have "\<not> sweep \<le> sweeps" and "sweeps_events N lb rb noises sweeps sweep = []"
    by (simp_all add: sweeps_events_def)
  then show ?case
    by (simp add: sweeps_loop_stop)
next
  case (Suc n)
  then have le: "sweep \<le> sweeps" by simp
  define noise' where "noise' = (if size_t_sub sweep 1 < length noises
                   then Some (noises ! (size_t_sub sweep 1)) else noise)"
  have noise': "noise' = Some (held_noise noises (sweep - 1))"
  proof (cases "sweep - 1 < length noises")
    case True
    then show ?thesis
      using Suc.prems(1) by (simp add: noise'_def held_noise_def min_def)
  next
    case False
    then have "2 \<le> sweep" using assms(3) by (cases noises) simp_all
    then have "noise = Some (held_noise noises (sweep - 2))"
      using Suc.prems(2) by simp
    moreover have "min (sweep - 2) (length noises - 1) = min (sweep - 1) (length noises - 1)"
      using False by simp
    ultimately show ?thesis
      using False Suc.prems(1) by (simp add: noise'_def held_noise_def)
  qed
  define s0 where "s0 = emit (Printed_sweep sweep) s"
  obtain s1 where s1:
      "TwoSiteFiniteVMPSSweep C N lb rb (held_noise noises (sweep - 1)) s0 = Inr s1"
      "trace s1 = trace s0 @ sweep_events N lb rb (held_noise noises (sweep - 1))"
    using Sweep_events [OF assms(1,2)] by blast
  have "n = sweeps + 1 - (sweep + 1)" using Suc.hyps(2) by simp
  moreover have "1 \<le> sweep + 1" by simp
  moreover have "2 \<le> sweep + 1 \<Longrightarrow> noise' = Some (held_noise noises (sweep + 1 - 2))"
    using noise' by simp
  ultimately obtain s' where s':
      "sweeps_loop C N lb rb noises sweeps (sweep + 1) noise' s1 = Inr s'"
      "trace s' = trace s1 @ sweeps_events N lb rb noises sweeps (sweep + 1)"
    using Suc.hyps(1) [of "sweep + 1" noise' s1] by blast
  have "sweeps_loop C N lb rb noises sweeps sweep noise s = Inr s'"
    using le s1(1) s'(1) noise' unfolding noise'_def
    by (simp add: sweeps_loop_step Let_def s0_def)
  moreover have "[sweep..<sweeps + 1] = sweep # [sweep + 1..<sweeps + 1]"
    using le by (simp add: upt_conv_Cons)
  then have "sweeps_events N lb rb noises sweeps sweep =
      Printed_sweep sweep # sweep_events N lb rb (held_noise noises (sweep - 1)) @
      sweeps_events N lb rb noises sweeps (sweep + 1)"
    by (simp add: sweeps_events_def)
  ultimately show ?case
    using s'(2) s1(2) by (simp add: s0_def)
qed

lemma Master_events:
  assumes "2 \<le> rb" and "rb < N" and "lb + 1 < N"
  shows "\<exists>s'. MasterTwoSiteFiniteVMPS C N (lb, rb) noises sweeps s = Inr s' \<and>
              trace s' = trace s @ master_events N lb rb noises sweeps"
proof -
  define noises' where "noises' = (if noises = [] then [0] else noises)"
  have ne: "noises' \<noteq> []" by (simp add: noises'_def)
  define s0 where "s0 = on_store (TwoSiteFiniteVMPSInit_effect C)
      (emit Called_TwoSiteFiniteVMPSInit (MasterBroadcastOrder program_start s))"
  obtain s1 where s1: "mps_LoadTen N lb s0 = Inr s1" "trace s1 = trace s0 @ [Loaded_mps lb]"
    using assms(3) by (simp add: mps_LoadTen_def)
  obtain s2 where s2: "mps_LoadTen N (lb + 1) s1 = Inr s2"
      "trace s2 = trace s1 @ [Loaded_mps (lb + 1)]"
    using assms(3) by (simp add: mps_LoadTen_def)
  obtain s3 where s3: "sweeps_loop C N lb rb noises' sweeps 1 None s2 = Inr s3"
      "trace s3 = trace s2 @ sweeps_events N lb rb noises' sweeps 1"
    using sweeps_loop_events [OF assms(1,2) ne, of 1 None C lb sweeps s2] by auto
  obtain s4 where s4: "mps_DumpTen_release N lb s3 = Inr s4"
      "trace s4 = trace s3 @ [Dumped_mps lb]"
    using assms(3) by (simp add: mps_DumpTen_release_def)
  obtain s5 where s5: "mps_DumpTen_release N (lb + 1) s4 = Inr s5"
      "trace s5 = trace s4 @ [Dumped_mps (lb + 1)]"
    using assms(3) by (simp add: mps_DumpTen_release_def)
  have "MasterTwoSiteFiniteVMPS C N (lb, rb) noises sweeps s =
          Inr (MasterBroadcastOrder program_final s5)"
    using s1(1) s2(1) s3(1) s4(1) s5(1)
    by (cases "noises = []")
       (simp_all add: MasterTwoSiteFiniteVMPS_def Let_def s0_def noises'_def)
  then show ?thesis
    using s1(2) s2(2) s3(2) s4(2) s5(2)
    by (simp add: master_events_def s0_def noises'_def)
qed

subsection \<open>Parts of a trace\<close>

lemma select_Nil [simp]: "select f [] = []"
  by (simp add: select_def)

lemma select_Cons [simp]: "select f (e # evs) = f e @ select f evs"
  by (simp add: select_def)

lemma select_append [simp]: "select f (xs @ ys) = select f xs @ select f ys"
  by (simp add: select_def)

lemma select_concat: "select f (concat xss) = concat (map (select f) xss)"
  by (induction xss) simp_all

lemma broadcasts_simps [simp]:
  "broadcasts [] = []"
  "broadcasts (e # evs) = (case e of Broadcast order \<Rightarrow> [order] | _ \<Rightarrow> []) @ broadcasts evs"
  "broadcasts (xs @ ys) = broadcasts xs @ broadcasts ys"
  "broadcasts (concat xss) = concat (map broadcasts xss)"
  by (simp_all add: broadcasts_def select_concat)

lemma bond_updates_simps [simp]:
  "bond_updates [] = []"
  "bond_updates (e # evs) =
     (case e of Called_MasterTwoSiteFiniteVMPSUpdate dir t noise \<Rightarrow> [(dir, t)] | _ \<Rightarrow> []) @
     bond_updates evs"
  "bond_updates (xs @ ys) = bond_updates xs @ bond_updates ys"
  "bond_updates (concat xss) = concat (map bond_updates xss)"
  by (simp_all add: bond_updates_def select_concat)

lemma sweep_noises_simps [simp]:
  "sweep_noises [] = []"
  "sweep_noises (e # evs) =
     (case e of Called_TwoSiteFiniteVMPSSweep noise \<Rightarrow> [noise] | _ \<Rightarrow> []) @ sweep_noises evs"
  "sweep_noises (xs @ ys) = sweep_noises xs @ sweep_noises ys"
  "sweep_noises (concat xss) = concat (map sweep_noises xss)"
  by (simp_all add: sweep_noises_def select_concat)

lemma assigned_sites_simps [simp]:
  "assigned_sites [] = []"
  "assigned_sites (e # evs) = (case e of Assigned_mps i \<Rightarrow> [i] | _ \<Rightarrow> []) @ assigned_sites evs"
  "assigned_sites (xs @ ys) = assigned_sites xs @ assigned_sites ys"
  "assigned_sites (concat xss) = concat (map assigned_sites xss)"
  by (simp_all add: assigned_sites_def select_concat)

lemma concat_map_const: "concat (map (\<lambda>_. xs) ys) = concat (replicate (length ys) xs)"
  by (induction ys) simp_all

subsection \<open>Bond updates of a run\<close>

lemma bond_updates_load [simp]:
  "bond_updates (load_right_events N t lb) = []" "bond_updates (load_left_events N t rb) = []"
  by (simp_all add: load_right_events_def load_left_events_def)

lemma bond_updates_update [simp]: "bond_updates (update_events N dir t noise) = [(dir, t)]"
  by (simp add: update_events_def)

lemma bond_updates_right_loop [simp]:
  "bond_updates (right_loop_events N lb rb noise i) = map (Pair (CHR ''r'')) [i..<rb - 1]"
  by (simp add: right_loop_events_def comp_def concat_map_singleton)

lemma bond_updates_left_loop [simp]:
  "bond_updates (left_loop_events N lb rb noise i) = map (Pair (CHR ''l'')) (rev [lb + 2..<i + 1])"
  by (simp add: left_loop_events_def comp_def concat_map_singleton rev_map)

lemma bond_updates_sweep [simp]:
  "bond_updates (sweep_events N lb rb noise) =
     map (Pair (CHR ''r'')) [lb..<rb - 1] @ map (Pair (CHR ''l'')) (rev [lb + 2..<rb + 1])"
  by (simp add: sweep_events_def)

lemma bond_updates_master:
  "bond_updates (master_events N lb rb noises sweeps) =
     concat (replicate sweeps
       (map (Pair (CHR ''r'')) [lb..<rb - 1] @ map (Pair (CHR ''l'')) (rev [lb + 2..<rb + 1])))"
  by (simp add: master_events_def sweeps_events_def comp_def concat_map_const)

subsection \<open>Noise values of a run\<close>

lemma sweep_noises_load [simp]:
  "sweep_noises (load_right_events N t lb) = []" "sweep_noises (load_left_events N t rb) = []"
  by (simp_all add: load_right_events_def load_left_events_def)

lemma sweep_noises_update [simp]: "sweep_noises (update_events N dir t noise) = []"
  by (simp add: update_events_def)

lemma sweep_noises_sweep [simp]: "sweep_noises (sweep_events N lb rb noise) = [noise]"
  by (simp add: sweep_events_def right_loop_events_def left_loop_events_def comp_def)

lemma sweep_noises_master:
  "sweep_noises (master_events N lb rb noises sweeps) =
     map (held_noise (if noises = [] then [0] else noises)) [0..<sweeps]"
proof -
  have "[1..<sweeps + 1] = map Suc [0..<sweeps]"
    by (simp add: map_Suc_upt)
  then show ?thesis
    by (simp add: master_events_def sweeps_events_def comp_def concat_map_singleton)
qed

subsection \<open>Orders of a run\<close>

lemma broadcasts_load [simp]:
  "broadcasts (load_right_events N t lb) = []" "broadcasts (load_left_events N t rb) = []"
  by (simp_all add: load_right_events_def load_left_events_def)

lemma broadcasts_update [simp]:
  "broadcasts (update_events N dir t noise) = update_orders dir noise"
  by (simp add: update_events_def update_orders_def)

lemma broadcasts_master:
  "\<exists>middle. broadcasts (master_events N lb rb noises sweeps) =
     program_start # middle @ [program_final]"
  by (simp add: master_events_def)

lemma no_expansion_in_update_orders:
  "\<bar>noise\<bar> < noise_floor \<Longrightarrow>
   contract_for_right_moving_expansion \<notin> set (update_orders dir noise) \<and>
   contract_for_left_moving_expansion \<notin> set (update_orders dir noise)"
  by (simp add: update_orders_def)

lemma no_expansion_in_sweep:
  "\<bar>noise\<bar> < noise_floor \<Longrightarrow>
   contract_for_right_moving_expansion \<notin> set (broadcasts (sweep_events N lb rb noise)) \<and>
   contract_for_left_moving_expansion \<notin> set (broadcasts (sweep_events N lb rb noise))"
  by (simp add: sweep_events_def right_loop_events_def left_loop_events_def comp_def
        no_expansion_in_update_orders)

lemma no_expansion_in_master:
  assumes "\<forall>v \<in> set (if noises = [] then [0] else noises). \<bar>v\<bar> < noise_floor"
  shows "contract_for_right_moving_expansion \<notin> set (broadcasts (master_events N lb rb noises sweeps)) \<and>
         contract_for_left_moving_expansion \<notin> set (broadcasts (master_events N lb rb noises sweeps))"
proof -
  have "\<bar>held_noise (if noises = [] then [0] else noises) k\<bar> < noise_floor" for k
    using assms by (auto simp: held_noise_def min_def)
  then show ?thesis
    by (simp add: master_events_def sweeps_events_def comp_def no_expansion_in_sweep)
qed

subsection \<open>Sites written by a run\<close>

lemma assigned_sites_load [simp]:
  "assigned_sites (load_right_events N t lb) = []" "assigned_sites (load_left_events N t rb) = []"
  by (simp_all add: load_right_events_def load_left_events_def)

lemma assigned_sites_update_right:
  "x \<in> set (assigned_sites (update_events N (CHR ''r'') t noise)) \<Longrightarrow> t \<le> x \<and> x \<le> t + 2"
  by (auto simp: update_events_def lsite_of_def split: if_splits)

lemma assigned_sites_update_left:
  "x \<in> set (assigned_sites (update_events N (CHR ''l'') t noise)) \<Longrightarrow> 2 \<le> t \<Longrightarrow>
   t - 2 \<le> x \<and> x \<le> t"
  by (auto simp: update_events_def lsite_of_def split: if_splits)

lemma assigned_sites_sweep:
  assumes "x \<in> set (assigned_sites (sweep_events N lb rb noise))"
  shows "lb \<le> x \<and> x \<le> rb"
proof -
  from assms consider
      j where "lb \<le> j" "j < rb - 1" "x \<in> set (assigned_sites (update_events N (CHR ''r'') j noise))"
    | j where "lb + 2 \<le> j" "j \<le> rb" "x \<in> set (assigned_sites (update_events N (CHR ''l'') j noise))"
    by (auto simp: sweep_events_def right_loop_events_def left_loop_events_def comp_def)
  then show ?thesis
  proof cases
    case 1
    then show ?thesis
      using assigned_sites_update_right [of x N j noise] by linarith
  next
    case 2
    then show ?thesis
      using assigned_sites_update_left [of x N j noise] by linarith
  qed
qed

lemma assigned_sites_master:
  "x \<in> set (assigned_sites (master_events N lb rb noises sweeps)) \<Longrightarrow> lb \<le> x \<and> x \<le> rb"
  by (auto simp: master_events_def sweeps_events_def comp_def dest: assigned_sites_sweep)

subsection \<open>The orders of one bond update\<close>

lemma Update_Inr_broadcasts:
  assumes "MasterTwoSiteFiniteVMPSUpdate N dir t noise s = Inr s'"
  shows "broadcasts (trace s') = broadcasts (trace s) @ update_orders dir noise"
  using assms
  by (auto simp: MasterTwoSiteFiniteVMPSUpdate_def and_then_Inr index_below_Inr Let_def
        update_orders_def MasterTwoSiteFiniteVMPSRightMovingExpand_def
        MasterTwoSiteFiniteVMPSLeftMovingExpand_def
      split: if_splits)

text \<open>
  C3, as the code has it. In every bond update of the master with \<open>dir\<close> \<^verbatim>\<open>'r'\<close> or \<^verbatim>\<open>'l'\<close>
  that runs to its end, the orders that \<^verbatim>\<open>MasterTwoSiteFiniteVMPSUpdate\<close> itself
  broadcasts are, in this sequence: \<open>lanczos\<close>; then, if and only if the magnitude of the
  noise is at least the floor \<^verbatim>\<open>1e-10\<close> (the test is \<^verbatim>\<open>>=\<close>), one expansion order,
  \<open>contract_for_right_moving_expansion\<close> for \<^verbatim>\<open>'r'\<close> and \<open>contract_for_left_moving_expansion\<close>
  for \<^verbatim>\<open>'l'\<close>; then \<open>svd\<close>; then \<open>growing_left_env\<close> for \<^verbatim>\<open>'r'\<close> and \<open>growing_right_env\<close> for
  \<^verbatim>\<open>'l'\<close>; and no other. With its indices in range the update does run to its end.
\<close>

theorem update_broadcast_sequence:
  assumes "dir = CHR ''r'' \<or> dir = CHR ''l''"
  shows "(\<forall>s'. MasterTwoSiteFiniteVMPSUpdate N dir target_site noise s = Inr s' \<longrightarrow>
            broadcasts (trace s') =
              broadcasts (trace s) @ [lanczos] @
              (if noise_floor \<le> \<bar>noise\<bar>
               then [if dir = CHR ''r'' then contract_for_right_moving_expansion
                     else contract_for_left_moving_expansion]
               else []) @
              [svd, if dir = CHR ''r'' then growing_left_env else growing_right_env])
         \<and> ((dir = CHR ''r'' \<and> target_site + 2 < N) \<or>
            (dir = CHR ''l'' \<and> 2 \<le> target_site \<and> target_site < N) \<longrightarrow>
            (\<exists>s'. MasterTwoSiteFiniteVMPSUpdate N dir target_site noise s = Inr s'))"
proof (intro conjI allI impI)
  fix s'
  assume "MasterTwoSiteFiniteVMPSUpdate N dir target_site noise s = Inr s'"
  from Update_Inr_broadcasts [OF this]
  show "broadcasts (trace s') =
              broadcasts (trace s) @ [lanczos] @
              (if noise_floor \<le> \<bar>noise\<bar>
               then [if dir = CHR ''r'' then contract_for_right_moving_expansion
                     else contract_for_left_moving_expansion]
               else []) @
              [svd, if dir = CHR ''r'' then growing_left_env else growing_right_env]"
    by (simp add: update_orders_def)
next
  assume "(dir = CHR ''r'' \<and> target_site + 2 < N) \<or>
          (dir = CHR ''l'' \<and> 2 \<le> target_site \<and> target_site < N)"
  then show "\<exists>s'. MasterTwoSiteFiniteVMPSUpdate N dir target_site noise s = Inr s'"
    using Update_right_events [of target_site N noise s]
      Update_left_events [of target_site N noise s]
    by blast
qed

text \<open>A left-moving update at site 4 of 6 with noise \<open>1 / 2\<close>.\<close>

theorem update_broadcast_sequence_witness:
  "\<exists>s'. MasterTwoSiteFiniteVMPSUpdate 6 (CHR ''l'') 4 (1 / 2) fresh_state = Inr s' \<and>
        broadcasts (trace s') = [lanczos, contract_for_left_moving_expansion, svd, growing_right_env]"
  using update_broadcast_sequence [of "CHR ''l''" 6 4 "1 / 2" fresh_state]
  by (auto simp: noise_floor_def fresh_state_def)

text \<open>
  C3 as stated lets the expansion order depend on the noise exceeding the floor. At a
  noise equal to the floor, which does not exceed it, the expansion order is broadcast.
\<close>

theorem update_expands_at_floor_counterexample:
  "broadcasts (result_trace (MasterTwoSiteFiniteVMPSUpdate 6 (CHR ''r'') 1 (1 / 10 ^ 10) fresh_state)) =
     [lanczos, contract_for_right_moving_expansion, svd, growing_left_env]
   \<and> \<not> \<bar>1 / 10 ^ 10 :: real\<bar> > 1 / 10 ^ 10"
proof -
  obtain s' where s': "MasterTwoSiteFiniteVMPSUpdate 6 (CHR ''r'') 1 (1 / 10 ^ 10) fresh_state = Inr s'"
      "trace s' = trace fresh_state @ update_events 6 (CHR ''r'') 1 (1 / 10 ^ 10)"
    using Update_right_events [of 1 6 "1 / 10 ^ 10" fresh_state] by auto
  then show ?thesis
    by (simp add: result_trace_def fresh_state_def update_orders_def noise_floor_def)
qed

subsection \<open>The structure of a run\<close>

text \<open>
  A run of \<^verbatim>\<open>MasterTwoSiteFiniteVMPS\<close> with boundaries inside the MPS (\<open>right_boundary\<close>
  at least 2, as the initialisation returns it for three sites and more) ends normally;
  its first broadcast is \<open>program_start\<close> and its last is \<open>program_final\<close>; each of the
  \<open>sweeps\<close> sweeps makes right-moving updates at the target sites \<open>left_boundary\<close>, ...,
  \<open>right_boundary - 2\<close> in ascending order and then left-moving updates at
  \<open>right_boundary\<close>, ..., \<open>left_boundary + 2\<close> in descending order; and every MPS tensor
  that is assigned lies at a site between the two boundaries.
\<close>

lemma master_sweep_structure:
  assumes "2 \<le> right_boundary" and "right_boundary < N" and "left_boundary + 1 < N"
    and "trace s = []"
  shows "\<exists>s'. MasterTwoSiteFiniteVMPS C N (left_boundary, right_boundary) noises sweeps s = Inr s' \<and>
          hd (broadcasts (trace s')) = program_start \<and>
          last (broadcasts (trace s')) = program_final \<and>
          bond_updates (trace s') =
            concat (replicate sweeps
              (map (Pair (CHR ''r'')) [left_boundary..<right_boundary - 1] @
               map (Pair (CHR ''l'')) (rev [left_boundary + 2..<right_boundary + 1]))) \<and>
          (\<forall>i \<in> set (assigned_sites (trace s')). left_boundary \<le> i \<and> i \<le> right_boundary)"
proof -
  obtain s' where s':
      "MasterTwoSiteFiniteVMPS C N (left_boundary, right_boundary) noises sweeps s = Inr s'"
      "trace s' = master_events N left_boundary right_boundary noises sweeps"
    using Master_events [OF assms(1-3), of C noises sweeps s] assms(4) by auto
  obtain middle where
      "broadcasts (trace s') = program_start # middle @ [program_final]"
    using broadcasts_master [of N left_boundary right_boundary noises sweeps] s'(2) by auto
  then have "hd (broadcasts (trace s')) = program_start"
      "last (broadcasts (trace s')) = program_final"
    by simp_all
  moreover have "\<forall>i \<in> set (assigned_sites (trace s')). left_boundary \<le> i \<and> i \<le> right_boundary"
    using s'(2) assigned_sites_master by simp
  ultimately show ?thesis
    using s' by (simp add: bond_updates_master)
qed

text \<open>Two sweeps over six sites with the boundaries \<open>(1, 4)\<close>.\<close>

lemma master_sweep_structure_example:
  "\<exists>s'. MasterTwoSiteFiniteVMPS idle_collaborators 6 (1, 4) [1 / 2] 2 fresh_state = Inr s' \<and>
        hd (broadcasts (trace s')) = program_start \<and>
        last (broadcasts (trace s')) = program_final \<and>
        bond_updates (trace s') =
          [(CHR ''r'', 1), (CHR ''r'', 2), (CHR ''l'', 4), (CHR ''l'', 3),
           (CHR ''r'', 1), (CHR ''r'', 2), (CHR ''l'', 4), (CHR ''l'', 3)]"
proof -
  have "[1..<4 - 1] = [1, 2 :: nat]" "rev [1 + 2..<4 + 1] = [4, 3 :: nat]"
    by (simp_all add: upt_rec)
  moreover have "replicate 2 x = [x, x]" for x :: "(char \<times> nat) list"
    by (simp add: numeral_2_eq_2)
  ultimately show ?thesis
    using master_sweep_structure [of 4 6 1 fresh_state idle_collaborators "[1 / 2]" 2]
    by (auto simp: fresh_state_def)
qed

subsection \<open>The noise of each sweep\<close>

text \<open>
  C1, as the code has it. An empty noise list is replaced by the single entry 0; every
  sweep then runs with noise 0 and no expansion order is ever broadcast. With a list
  that is not empty, sweep \<open>k + 1\<close> runs with entry \<open>k\<close> of the list when there is one, and
  with the last entry of the list otherwise: the local \<^verbatim>\<open>noise\<close> keeps the value of the
  last assignment.
\<close>

theorem master_noise_schedule:
  assumes "2 \<le> right_boundary" and "right_boundary < N" and "left_boundary + 1 < N"
    and "trace s = []"
  shows "\<exists>s'. MasterTwoSiteFiniteVMPS C N (left_boundary, right_boundary) noises sweeps s = Inr s' \<and>
          sweep_noises (trace s') =
            (if noises = [] then replicate sweeps 0
             else map (\<lambda>k. noises ! min k (length noises - 1)) [0..<sweeps]) \<and>
          (noises = [] \<longrightarrow>
             contract_for_right_moving_expansion \<notin> set (broadcasts (trace s')) \<and>
             contract_for_left_moving_expansion \<notin> set (broadcasts (trace s')))"
proof -
  obtain s' where s':
      "MasterTwoSiteFiniteVMPS C N (left_boundary, right_boundary) noises sweeps s = Inr s'"
      "trace s' = master_events N left_boundary right_boundary noises sweeps"
    using Master_events [OF assms(1-3), of C noises sweeps s] assms(4) by auto
  have "held_noise [0] = (\<lambda>k. 0)"
    by (rule ext) (simp add: held_noise_def)
  then have "map (held_noise [0]) [0..<sweeps] = replicate sweeps 0"
    by (simp add: map_replicate_const)
  then have "sweep_noises (trace s') =
            (if noises = [] then replicate sweeps 0
             else map (\<lambda>k. noises ! min k (length noises - 1)) [0..<sweeps])"
    using s'(2) by (simp add: sweep_noises_master held_noise_def [abs_def])
  moreover have "contract_for_right_moving_expansion \<notin> set (broadcasts (trace s')) \<and>
             contract_for_left_moving_expansion \<notin> set (broadcasts (trace s'))"
    if "noises = []"
    using that s'(2) no_expansion_in_master [of noises N left_boundary right_boundary sweeps]
    by (simp add: noise_floor_def)
  ultimately show ?thesis
    using s'(1) by blast
qed

text \<open>Three sweeps with an empty list, and three sweeps with a list of two entries.\<close>

theorem master_noise_schedule_witness:
  "(\<exists>s'. MasterTwoSiteFiniteVMPS idle_collaborators 6 (1, 4) [] 3 fresh_state = Inr s' \<and>
         sweep_noises (trace s') = [0, 0, 0] \<and>
         contract_for_right_moving_expansion \<notin> set (broadcasts (trace s')) \<and>
         contract_for_left_moving_expansion \<notin> set (broadcasts (trace s'))) \<and>
   (\<exists>s'. MasterTwoSiteFiniteVMPS idle_collaborators 6 (1, 4) [1 / 2, 1 / 4] 3 fresh_state = Inr s' \<and>
         sweep_noises (trace s') = [1 / 2, 1 / 4, 1 / 4])"
proof -
  have upt: "[0..<3] = [0, 1, 2 :: nat]"
    by (simp add: upt_rec)
  have "replicate 3 (0 :: real) = [0, 0, 0]"
    by (simp add: numeral_3_eq_3)
  then have "\<exists>s'. MasterTwoSiteFiniteVMPS idle_collaborators 6 (1, 4) [] 3 fresh_state = Inr s' \<and>
         sweep_noises (trace s') = [0, 0, 0] \<and>
         contract_for_right_moving_expansion \<notin> set (broadcasts (trace s')) \<and>
         contract_for_left_moving_expansion \<notin> set (broadcasts (trace s'))"
    using master_noise_schedule [of 4 6 1 fresh_state idle_collaborators "[]" 3]
    by (auto simp: fresh_state_def)
  moreover have "\<exists>s'. MasterTwoSiteFiniteVMPS idle_collaborators 6 (1, 4) [1 / 2, 1 / 4] 3 fresh_state = Inr s' \<and>
         sweep_noises (trace s') = [1 / 2, 1 / 4, 1 / 4]"
    using master_noise_schedule [of 4 6 1 fresh_state idle_collaborators "[1 / 2, 1 / 4]" 3]
    by (auto simp: fresh_state_def upt)
  ultimately show ?thesis
    by blast
qed

text \<open>
  C1 as stated says that a sweep beyond the end of the noise list does not reuse the
  last configured value. With the list \<open>[1 / 2]\<close> and two sweeps, the second sweep runs
  with \<open>1 / 2\<close> and broadcasts an expansion order.
\<close>

theorem noise_reused_after_list_counterexample:
  "sweep_noises (result_trace
     (MasterTwoSiteFiniteVMPS idle_collaborators 6 (1, 4) [1 / 2] 2 fresh_state)) = [1 / 2, 1 / 2]
   \<and> contract_for_right_moving_expansion \<in> set (broadcasts (result_trace
     (MasterTwoSiteFiniteVMPS idle_collaborators 6 (1, 4) [1 / 2] 2 fresh_state)))"
proof -
  obtain s' where s':
      "MasterTwoSiteFiniteVMPS idle_collaborators 6 (1, 4) [1 / 2] 2 fresh_state = Inr s'"
      "trace s' = trace fresh_state @ master_events 6 1 4 [1 / 2] 2"
    using Master_events [of 4 6 1 idle_collaborators "[1 / 2]" 2 fresh_state] by auto
  have "[0..<2] = [0, 1 :: nat]"
    by (simp add: upt_rec)
  then have "sweep_noises (trace s') = [1 / 2, 1 / 2]"
    using s'(2) by (simp add: fresh_state_def sweep_noises_master held_noise_def)
  moreover have "[1..<2 + 1] = [1, 2 :: nat]" "[1..<4 - 1] = [1, 2 :: nat]"
    by (simp_all add: upt_rec)
  then have "contract_for_right_moving_expansion \<in> set (broadcasts (trace s'))"
    using s'(2)
    by (simp add: fresh_state_def master_events_def sweeps_events_def sweep_events_def
          right_loop_events_def update_orders_def noise_floor_def held_noise_def)
  ultimately show ?thesis
    using s'(1) by (simp add: result_trace_def)
qed

subsection \<open>Environment files on loading\<close>

lemma LoadRight_result:
  assumes "t + 2 < N"
  shows "LoadRelatedTensOnTwoSiteAlgWhenRightMoving N t lb s =
           Inr \<lparr>store = (store s)\<lparr>mps_mem := insert (t + 2) (mps_mem (store s)),
                     lenvs_mem := (if t = lb then insert t (lenvs_mem (store s))
                                   else lenvs_mem (store s)),
                     renvs_mem := insert (N - (t + 2)) (renvs_mem (store s)),
                     env_files := env_files (store s) - {(CHR ''r'', N - (t + 2))}\<rparr>,
                trace = trace s @ load_right_events N t lb\<rparr>"
  using assms
  by (simp add: LoadRelatedTensOnTwoSiteAlgWhenRightMoving_def load_right_events_def
        mps_LoadTen_def renvs_LoadTen_def lenvs_LoadTen_def Let_def
        emit_def on_store_def RemoveFile_def)

lemma LoadLeft_result:
  assumes "2 \<le> t" and "t < N"
  shows "LoadRelatedTensOnTwoSiteAlgWhenLeftMoving N t rb s =
           Inr \<lparr>store = (store s)\<lparr>mps_mem := insert (t - 2) (mps_mem (store s)),
                     lenvs_mem := (if t = rb then lenvs_mem (store s)
                                   else insert (t - 1) (lenvs_mem (store s))),
                     renvs_mem := (if t = rb then insert (N - 1 - t) (renvs_mem (store s))
                                   else renvs_mem (store s)),
                     env_files := env_files (store s) - {(CHR ''l'', t - 1)}\<rparr>,
                trace = trace s @ load_left_events N t rb\<rparr>"
  using assms
  by (simp add: LoadRelatedTensOnTwoSiteAlgWhenLeftMoving_def load_left_events_def
        mps_LoadTen_def renvs_LoadTen_def lenvs_LoadTen_def Let_def
        emit_def on_store_def RemoveFile_def)

text \<open>
  C2, as the code has it. Both functions are given by their result, storage and events
  in the order they happen. Away from the boundary sites the one environment file that a
  load function loads is removed by the very next step. At \<open>target_site = left_boundary\<close>
  the right-moving function loads and removes the right environment file in the same way
  and then loads the left environment of length \<open>left_boundary\<close>, whose file it keeps; at
  \<open>target_site = right_boundary\<close> the left-moving function loads the right environment of
  length \<open>N - 1 - right_boundary\<close> and keeps its file, and removes the file of the left
  environment of length \<open>right_boundary - 1\<close>, which it has not loaded. In each case
  exactly one file is removed.
\<close>

theorem load_related_env_files:
  "(t + 2 < N \<longrightarrow>
      LoadRelatedTensOnTwoSiteAlgWhenRightMoving N t left_boundary s =
        Inr \<lparr>store = (store s)\<lparr>
                 mps_mem := insert (t + 2) (mps_mem (store s)),
                 lenvs_mem := (if t = left_boundary then insert t (lenvs_mem (store s))
                               else lenvs_mem (store s)),
                 renvs_mem := insert (N - (t + 2)) (renvs_mem (store s)),
                 env_files := env_files (store s) - {(CHR ''r'', N - (t + 2))}\<rparr>,
             trace = trace s @
               (if t = left_boundary
                then [Loaded_mps (t + 2),
                      Loaded_env (CHR ''r'') (N - (t + 2)), Removed_file (CHR ''r'') (N - (t + 2)),
                      Loaded_env (CHR ''l'') t]
                else [Loaded_mps (t + 2),
                      Loaded_env (CHR ''r'') (N - (t + 2)), Removed_file (CHR ''r'') (N - (t + 2))])\<rparr>)
   \<and>
   (2 \<le> t \<and> t < N \<longrightarrow>
      LoadRelatedTensOnTwoSiteAlgWhenLeftMoving N t right_boundary s =
        Inr \<lparr>store = (store s)\<lparr>
                 mps_mem := insert (t - 2) (mps_mem (store s)),
                 lenvs_mem := (if t = right_boundary then lenvs_mem (store s)
                               else insert (t - 1) (lenvs_mem (store s))),
                 renvs_mem := (if t = right_boundary then insert (N - 1 - t) (renvs_mem (store s))
                               else renvs_mem (store s)),
                 env_files := env_files (store s) - {(CHR ''l'', t - 1)}\<rparr>,
             trace = trace s @
               (if t = right_boundary
                then [Loaded_mps (t - 2),
                      Loaded_env (CHR ''r'') (N - 1 - t), Removed_file (CHR ''l'') (t - 1)]
                else [Loaded_mps (t - 2),
                      Loaded_env (CHR ''l'') (t - 1), Removed_file (CHR ''l'') (t - 1)])\<rparr>)"
  by (simp add: LoadRight_result LoadLeft_result load_right_events_def load_left_events_def)

text \<open>
  Six sites, boundaries \<open>(1, 4)\<close>: moving right at site 2 (the right environment of length
  2 is loaded and its file removed), moving left at the boundary site 4 (the right
  environment of length 1 is loaded and its file stays, the file of the left environment
  of length 3 is removed unread).
\<close>

theorem load_related_env_files_witness:
  "LoadRelatedTensOnTwoSiteAlgWhenRightMoving 6 2 1 boundary_disk =
     Inr \<lparr>store = \<lparr>mps_mem = {4, 1, 2}, lenvs_mem = {}, renvs_mem = {2},
                   env_files = {(CHR ''l'', 1), (CHR ''r'', 1), (CHR ''r'', 3)}\<rparr>,
          trace = [Loaded_mps 4, Loaded_env (CHR ''r'') 2, Removed_file (CHR ''r'') 2]\<rparr>
   \<and> LoadRelatedTensOnTwoSiteAlgWhenLeftMoving 6 4 4 boundary_disk =
     Inr \<lparr>store = \<lparr>mps_mem = {2, 1}, lenvs_mem = {}, renvs_mem = {1},
                   env_files = {(CHR ''l'', 1), (CHR ''r'', 1), (CHR ''r'', 2), (CHR ''r'', 3)}\<rparr>,
          trace = [Loaded_mps 2, Loaded_env (CHR ''r'') 1, Removed_file (CHR ''l'') 3]\<rparr>"
proof -
  have a: "{(CHR ''l'', 1), (CHR ''r'', 1), (CHR ''r'', 2), (CHR ''r'', 3)} - {(CHR ''r'', 6 - (2 + 2))}
          = {(CHR ''l'', 1 :: nat), (CHR ''r'', 1), (CHR ''r'', 3)}"
    by (simp add: insert_Diff_if)
  have b: "{(CHR ''l'', 1), (CHR ''r'', 1), (CHR ''r'', 2), (CHR ''r'', 3)} - {(CHR ''l'', 4 - 1)}
          = {(CHR ''l'', 1 :: nat), (CHR ''r'', 1), (CHR ''r'', 2), (CHR ''r'', 3)}"
    by (simp add: insert_Diff_if)
  have c: "insert (4 - 2) {1, 2} = {2, 1 :: nat}"
    by auto
  from load_related_env_files [of 2 6 1 boundary_disk 4]
  have "LoadRelatedTensOnTwoSiteAlgWhenRightMoving 6 2 1 boundary_disk =
     Inr \<lparr>store = \<lparr>mps_mem = {4, 1, 2}, lenvs_mem = {}, renvs_mem = {2},
                   env_files = {(CHR ''l'', 1), (CHR ''r'', 1), (CHR ''r'', 3)}\<rparr>,
          trace = [Loaded_mps 4, Loaded_env (CHR ''r'') 2, Removed_file (CHR ''r'') 2]\<rparr>"
    using a by (simp add: boundary_disk_def)
  moreover from load_related_env_files [of 4 6 1 boundary_disk 4]
  have "LoadRelatedTensOnTwoSiteAlgWhenLeftMoving 6 4 4 boundary_disk =
     Inr \<lparr>store = \<lparr>mps_mem = {2, 1}, lenvs_mem = {}, renvs_mem = {1},
                   env_files = {(CHR ''l'', 1), (CHR ''r'', 1), (CHR ''r'', 2), (CHR ''r'', 3)}\<rparr>,
          trace = [Loaded_mps 2, Loaded_env (CHR ''r'') 1, Removed_file (CHR ''l'') 3]\<rparr>"
    using b c by (simp add: boundary_disk_def)
  ultimately show ?thesis
    by (rule conjI)
qed

text \<open>
  C2 as stated has every loaded environment file removed right after its load. Moving
  right at the boundary site 1, the left environment of length 1 is loaded last and its
  file is still on disk on return.
\<close>

theorem boundary_env_file_kept_counterexample:
  "LoadRelatedTensOnTwoSiteAlgWhenRightMoving 6 1 1 boundary_disk =
     Inr \<lparr>store = \<lparr>mps_mem = {1, 2, 3}, lenvs_mem = {1}, renvs_mem = {3},
                   env_files = {(CHR ''l'', 1), (CHR ''r'', 1), (CHR ''r'', 2)}\<rparr>,
          trace = [Loaded_mps 3, Loaded_env (CHR ''r'') 3, Removed_file (CHR ''r'') 3,
                   Loaded_env (CHR ''l'') 1]\<rparr>"
proof -
  have "insert (1 + 2) {1, 2} = {1, 2, 3 :: nat}"
    by auto
  moreover have
    "{(CHR ''l'', 1), (CHR ''r'', 1), (CHR ''r'', 2), (CHR ''r'', 3)} - {(CHR ''r'', 6 - (1 + 2))}
          = {(CHR ''l'', 1 :: nat), (CHR ''r'', 1), (CHR ''r'', 2)}"
    by (simp add: insert_Diff_if)
  ultimately show ?thesis
    using LoadRight_result [of 1 6 1 boundary_disk]
    by (simp add: boundary_disk_def load_right_events_def)
qed
section \<open>Properties of the boundary check\<close>

declare left_side.simps [simp del] right_side.simps [simp del]
  dump_upwards.simps [simp del] dump_downwards.simps [simp del]

lemma mps_LoadTen_ok:
  "i < N \<Longrightarrow> mps_LoadTen N i s =
     Inr (emit (Loaded_mps i) (on_store (\<lambda>st. st\<lparr>mps_mem := insert i (mps_mem st)\<rparr>) s))"
  by (simp add: mps_LoadTen_def)

lemma mps_DumpTen_release_ok:
  "i < N \<Longrightarrow> mps_DumpTen_release N i s =
     Inr (emit (Dumped_mps i) (on_store (\<lambda>st. st\<lparr>mps_mem := mps_mem st - {i}\<rparr>) s))"
  by (simp add: mps_DumpTen_release_def)

lemma left_side_result:
  assumes "i < lms" and "lms < N"
  shows "\<exists>lb s'. left_side shape Dmax N lms i lb0 s = Inr (lb, s') \<and> i \<le> lb \<and> lb < lms \<and>
           mps_mem (store s') = mps_mem (store s) \<union> {i + 1..lb + 1}"
  using assms(1)
proof (induction "lms - i" arbitrary: i lb0 s)
  case 0
  then show ?case by simp
next
  case (Suc n)
  obtain d0 d1 d2 where shape: "shape i = (d0, d1, d2)"
    by (cases "shape i") auto
  define s1 where "s1 = emit (Loaded_mps (i + 1))
      (on_store (\<lambda>st. st\<lparr>mps_mem := insert (i + 1) (mps_mem st)\<rparr>) s)"
  have load: "mps_LoadTen N (i + 1) s = Inr s1"
    using Suc.prems assms(2) by (simp add: mps_LoadTen_ok s1_def)
  have idx: "index_below N i s1 = Inr s1"
    using Suc.prems assms(2) by simp
  have mem1: "mps_mem (store s1) = mps_mem (store s) \<union> {i + 1}"
    by (simp add: s1_def)
  show ?case
  proof (cases "size_t_mul d0 d1 > Dmax")
    case True
    then have "left_side shape Dmax N lms i lb0 s = Inr (i, s1)"
      using Suc.prems load idx shape by (simp add: left_side.simps)
    then show ?thesis
      using Suc.prems mem1 by auto
  next
    case False
    define s2 where "s2 = (if size_t_mul d0 d1 > d2
                      then emit (Assigned_mps i)
                             (emit (Assigned_mps (i + 1)) (emit (Assigned_mps i) s1))
                      else s1)"
    define lb1 where "lb1 = (if i = size_t_sub lms 1 then i else lb0)"
    have step: "left_side shape Dmax N lms i lb0 s = left_side shape Dmax N lms (i + 1) lb1 s2"
      using Suc.prems load idx shape False
      by (simp add: left_side.simps [of shape Dmax N lms i] Let_def s2_def lb1_def)
    have mem2: "mps_mem (store s2) = mps_mem (store s) \<union> {i + 1}"
      using mem1 by (simp add: s2_def)
    show ?thesis
    proof (cases "i + 1 < lms")
      case True
      have "n = lms - (i + 1)" using Suc.hyps(2) by simp
      from Suc.hyps(1) [OF this True, of lb1 s2]
      obtain lb s' where r: "left_side shape Dmax N lms (i + 1) lb1 s2 = Inr (lb, s')"
          "i + 1 \<le> lb" "lb < lms"
          "mps_mem (store s') = mps_mem (store s2) \<union> {i + 1 + 1..lb + 1}"
        by blast
      have "mps_mem (store s) \<union> {i + 1} \<union> {i + 1 + 1..lb + 1} =
            mps_mem (store s) \<union> {i + 1..lb + 1}"
        using r(2) by auto
      then show ?thesis
        using step r mem2 by auto
    next
      case False
      then have last: "i = lms - 1" "lms \<ge> 1"
        using Suc.prems by simp_all
      then have "lb1 = i"
        by (simp add: lb1_def)
      moreover have "left_side shape Dmax N lms (i + 1) lb1 s2 = Inr (lb1, s2)"
        using False by (simp add: left_side.simps)
      ultimately show ?thesis
        using step mem2 Suc.prems by auto
    qed
  qed
qed

lemma dump_upwards_result:
  assumes "bound < N"
  shows "\<exists>s'. dump_upwards N i bound s = Inr s' \<and>
           mps_mem (store s') = mps_mem (store s) - {i..bound}"
proof (induction "bound + 1 - i" arbitrary: i s)
  case 0
  then show ?case
    by (simp add: dump_upwards.simps)
next
  case (Suc n)
  then have i: "i \<le> bound" "i < N"
    using assms by simp_all
  define s1 where "s1 = emit (Dumped_mps i) (on_store (\<lambda>st. st\<lparr>mps_mem := mps_mem st - {i}\<rparr>) s)"
  have "n = bound + 1 - (i + 1)" using Suc.hyps(2) by simp
  from Suc.hyps(1) [OF this, of s1]
  obtain s' where s': "dump_upwards N (i + 1) bound s1 = Inr s'"
      "mps_mem (store s') = mps_mem (store s1) - {i + 1..bound}"
    by blast
  have "dump_upwards N i bound s = Inr s'"
    using i s'(1) by (simp add: dump_upwards.simps [of N i] mps_DumpTen_release_ok s1_def)
  moreover have "mps_mem (store s) - {i} - {i + 1..bound} = mps_mem (store s) - {i..bound}"
    using i(1) by auto
  ultimately show ?case
    using s'(2) by (simp add: s1_def)
qed

lemma right_side_result:
  assumes "rms < i" and "i < N"
  shows "\<exists>rb s'. right_side shape Dmax N rms i rb0 s = Inr (rb, s') \<and> rms < rb \<and> rb \<le> i \<and>
           mps_mem (store s') = mps_mem (store s) \<union> {rb - 1..i - 1}"
  using assms
proof (induction "i - rms" arbitrary: i rb0 s)
  case 0
  then show ?case by simp
next
  case (Suc n)
  obtain d0 d1 d2 where shape: "shape i = (d0, d1, d2)"
    by (cases "shape i") auto
  have i1: "1 \<le> i" "i - 1 < N" "size_t_sub i 1 = i - 1"
    using Suc.prems by simp_all
  define s1 where "s1 = emit (Loaded_mps (i - 1))
      (on_store (\<lambda>st. st\<lparr>mps_mem := insert (i - 1) (mps_mem st)\<rparr>) s)"
  have load: "mps_LoadTen N (size_t_sub i 1) s = Inr s1"
    using i1 by (simp add: mps_LoadTen_ok s1_def)
  have idx: "index_below N i s1 = Inr s1"
    using Suc.prems by simp
  have mem1: "mps_mem (store s1) = mps_mem (store s) \<union> {i - 1}"
    by (simp add: s1_def)
  show ?case
  proof (cases "size_t_mul d1 d2 > Dmax")
    case True
    then have "right_side shape Dmax N rms i rb0 s = Inr (i, s1)"
      using Suc.prems load idx shape by (simp add: right_side.simps)
    then show ?thesis
      using Suc.prems mem1 by auto
  next
    case False
    define s2 where "s2 = (if size_t_mul d1 d2 > d0
                      then emit (Assigned_mps i) (emit (Assigned_mps (size_t_sub i 1)) s1)
                      else s1)"
    define rb1 where "rb1 = (if i = rms + 1 then i else rb0)"
    have step: "right_side shape Dmax N rms i rb0 s = right_side shape Dmax N rms (i - 1) rb1 s2"
      using Suc.prems load idx shape False i1(3)
      by (simp add: right_side.simps [of shape Dmax N rms i] Let_def s2_def rb1_def)
    have mem2: "mps_mem (store s2) = mps_mem (store s) \<union> {i - 1}"
      using mem1 by (simp add: s2_def)
    show ?thesis
    proof (cases "rms < i - 1")
      case True
      have "n = i - 1 - rms" using Suc.hyps(2) by simp
      moreover have "i - 1 < N" using Suc.prems by simp
      ultimately obtain rb s' where r: "right_side shape Dmax N rms (i - 1) rb1 s2 = Inr (rb, s')"
          "rms < rb" "rb \<le> i - 1"
          "mps_mem (store s') = mps_mem (store s2) \<union> {rb - 1..i - 1 - 1}"
        using Suc.hyps(1) [of "i - 1" rb1 s2] True by blast
      have "mps_mem (store s) \<union> {i - 1} \<union> {rb - 1..i - 1 - 1} =
            mps_mem (store s) \<union> {rb - 1..i - 1}"
        using r(2,3) by auto
      then show ?thesis
        using step r mem2 by auto
    next
      case False
      then have last: "i = rms + 1"
        using Suc.prems by simp
      then have "rb1 = i"
        by (simp add: rb1_def)
      moreover have "right_side shape Dmax N rms (i - 1) rb1 s2 = Inr (rb1, s2)"
        using False by (simp add: right_side.simps)
      ultimately show ?thesis
        using step mem2 Suc.prems by auto
    qed
  qed
qed

lemma dump_downwards_result:
  assumes "1 \<le> bound" and "i < N"
  shows "\<exists>s'. dump_downwards N i bound s = Inr s' \<and>
           mps_mem (store s') = mps_mem (store s) - {bound..i}"
  using assms(2)
proof (induction i arbitrary: s)
  case 0
  then show ?case
    using assms(1) by (simp add: dump_downwards.simps)
next
  case (Suc i)
  show ?case
  proof (cases "bound \<le> Suc i")
    case False
    then show ?thesis
      by (simp add: dump_downwards.simps)
  next
    case True
    define s1 where "s1 = emit (Dumped_mps (Suc i))
        (on_store (\<lambda>st. st\<lparr>mps_mem := mps_mem st - {Suc i}\<rparr>) s)"
    have "i < N" using Suc.prems by simp
    from Suc.IH [OF this, of s1]
    obtain s' where s': "dump_downwards N i bound s1 = Inr s'"
        "mps_mem (store s') = mps_mem (store s1) - {bound..i}"
      by blast
    have "dump_downwards N (Suc i) bound s = Inr s'"
      using True Suc.prems s'(1)
      by (simp add: dump_downwards.simps [of N "Suc i"] mps_DumpTen_release_ok s1_def)
    moreover have "mps_mem (store s) - {Suc i} - {bound..i} = mps_mem (store s) - {bound..Suc i}"
      using True by auto
    ultimately show ?thesis
      using s'(2) by (simp add: s1_def)
  qed
qed

lemma assert_that_ok [simp]: "cond \<Longrightarrow> assert_that checked cond s = Inr s"
  by (simp add: assert_that_def)

text \<open>
  For an MPS of three sites or more, whatever shapes the canonicalisation yields and in
  both kinds of build: called with no MPS tensor in memory, the function returns with no
  MPS tensor in memory, and its boundaries leave at least three sites between them,
  inside the MPS.
\<close>

lemma CheckAndUpdate_three_sites:
  assumes "3 \<le> N" and "mps_mem (store s) = {}"
  shows "\<exists>lb rb s'.
           CheckAndUpdateBoundaryMPSTensors checked left_shape right_shape Dmax N s =
             Inr ((lb, rb), s') \<and>
           mps_mem (store s') = {} \<and> lb + 2 \<le> rb \<and> rb < N"
proof -
  define lms where "lms = (if N mod 2 = 0 then size_t_sub (N div 2) 1 else N div 2)"
  define rms where "rms = (if N mod 2 = 0 then N div 2 else N div 2)"
  have lms: "0 < lms" "lms < N" "lms \<le> rms" and rms: "rms < N - 1" "1 \<le> rms"
    using assms(1) by (auto simp: lms_def rms_def)
  define s1 where "s1 = emit (Loaded_mps 0)
      (on_store (\<lambda>st. st\<lparr>mps_mem := insert 0 (mps_mem st)\<rparr>) s)"
  have l0: "mps_LoadTen N 0 s = Inr s1"
    using assms(1) by (simp add: mps_LoadTen_ok s1_def)
  obtain lb s2 where left: "left_side left_shape Dmax N lms 0 0 s1 = Inr (lb, s2)"
      "lb < lms" "mps_mem (store s2) = mps_mem (store s1) \<union> {0 + 1..lb + 1}"
    using left_side_result [OF lms(1,2), of left_shape Dmax 0 s1] by blast
  have mem2: "mps_mem (store s2) = {0..lb + 1}"
    using left(3) assms(2) by (auto simp: s1_def)
  obtain s3 where up: "dump_upwards N 0 (lb + 1) s2 = Inr s3"
      "mps_mem (store s3) = mps_mem (store s2) - {0..lb + 1}"
    using dump_upwards_result [of "lb + 1" N 0 s2] left(2) lms(2) by auto
  have mem3: "mps_mem (store s3) = {}"
    using up(2) mem2 by simp
  define s4 where "s4 = emit (Loaded_mps (N - 1))
      (on_store (\<lambda>st. st\<lparr>mps_mem := insert (N - 1) (mps_mem st)\<rparr>) s3)"
  have l4: "mps_LoadTen N (size_t_sub N 1) s3 = Inr s4"
    using assms(1) by (simp add: mps_LoadTen_ok s4_def)
  obtain rb s5 where right: "right_side right_shape Dmax N rms (size_t_sub N 1) 0 s4 = Inr (rb, s5)"
      "rms < rb" "rb \<le> N - 1" "mps_mem (store s5) = mps_mem (store s4) \<union> {rb - 1..N - 1 - 1}"
    using right_side_result [of rms "N - 1" N right_shape Dmax 0 s4] rms assms(1) by auto
  have mem5: "mps_mem (store s5) = {rb - 1..N - 1}"
    using right(2,3,4) mem3 by (auto simp: s4_def)
  have rb1: "1 \<le> rb - 1" "size_t_sub rb 1 = rb - 1"
    using right(2) rms(2) by simp_all
  obtain s6 where down: "dump_downwards N (size_t_sub N 1) (size_t_sub rb 1) s5 = Inr s6"
      "mps_mem (store s6) = mps_mem (store s5) - {rb - 1..N - 1}"
    using dump_downwards_result [OF rb1(1), of "N - 1" N s5] rb1(2) assms(1) by auto
  have mem6: "mps_mem (store s6) = {}"
    using down(2) mem5 by simp
  have "CheckAndUpdateBoundaryMPSTensors checked left_shape right_shape Dmax N s =
             Inr ((lb, rb), s6)"
    using assms(2) l0 left(1) up(1) l4 right(1) down(1) mem6
    unfolding CheckAndUpdateBoundaryMPSTensors_def lms_def [symmetric] rms_def [symmetric]
    by (simp add: Let_def)
  moreover have "lb + 2 \<le> rb" "rb < N"
    using left(2) right(2,3) lms(3) assms(1) by simp_all
  ultimately show ?thesis
    using mem6 by blast
qed

text \<open>
  An MPS of two sites: both middle loops are empty, both boundaries stay 0, and the last
  dump loop, whose bound \<^verbatim>\<open>right_boundary-1\<close> wraps, dumps nothing.
\<close>

lemma CheckAndUpdate_two_sites:
  "CheckAndUpdateBoundaryMPSTensors False left_shape right_shape Dmax 2 fresh_state =
     Inr ((0, 0),
          \<lparr>store = \<lparr>mps_mem = {1}, lenvs_mem = {}, renvs_mem = {}, env_files = {}\<rparr>,
           trace = [Loaded_mps 0, Dumped_mps 0, Dumped_mps 1, Loaded_mps 1]\<rparr>)
   \<and> CheckAndUpdateBoundaryMPSTensors True left_shape right_shape Dmax 2 fresh_state =
       Inl AssertionFailed"
proof -
  have sub: "size_t_sub (Suc 0) (Suc 0) = 0" "size_t_sub 2 (Suc 0) = Suc 0"
      "size_t_sub 0 (Suc 0) = 18446744073709551615"
    by (simp_all add: size_t_sub_def)
  have left: "left_side left_shape Dmax 2 0 0 0 s = Inr (0, s)" for s
    by (simp add: left_side.simps)
  have right: "right_side right_shape Dmax 2 (Suc 0) (Suc 0) 0 s = Inr (0, s)" for s
    by (simp add: right_side.simps)
  have up: "dump_upwards 2 0 (Suc 0) s =
      Inr (emit (Dumped_mps (Suc 0)) (on_store (\<lambda>st. st\<lparr>mps_mem := mps_mem st - {Suc 0}\<rparr>)
          (emit (Dumped_mps 0) (on_store (\<lambda>st. st\<lparr>mps_mem := mps_mem st - {0}\<rparr>) s))))" for s
    by (simp add: dump_upwards.simps [of 2 0] dump_upwards.simps [of 2 "Suc 0"]
          dump_upwards.simps [of 2 2] dump_upwards.simps [of 2 "Suc (Suc 0)"]
          mps_DumpTen_release_ok)
  have down: "dump_downwards 2 (Suc 0) 18446744073709551615 s = Inr s" for s
    by (simp add: dump_downwards.simps)
  show ?thesis
    by (simp add: CheckAndUpdateBoundaryMPSTensors_def Let_def sub left right up down
          mps_LoadTen_ok fresh_state_def assert_that_def emit_def on_store_def)
qed

text \<open>
  C10 says that \<^verbatim>\<open>CheckAndUpdateBoundaryMPSTensors\<close>, called with no MPS site tensor in
  memory, returns with none in memory: every tensor it loads is dumped with release
  before the return. For an MPS of two sites it is not so. Both middle loops are empty,
  \<open>right_boundary\<close> stays 0, the bound \<^verbatim>\<open>right_boundary-1\<close> of the last dump loop wraps to
  \<^verbatim>\<open>SIZE_MAX\<close>, so the loop dumps nothing and the tensor at site 1, loaded by
  \<^verbatim>\<open>mps.LoadTen(N-1, ...)\<close>, stays in memory. A build without assertions returns the
  boundaries \<open>(0, 0)\<close> with that tensor resident; a build with assertions fails the final
  \<^verbatim>\<open>assert(mps.empty())\<close>.
\<close>

theorem check_boundary_two_sites:
  "CheckAndUpdateBoundaryMPSTensors False left_shape right_shape Dmax 2 fresh_state =
     Inr ((0, 0),
          \<lparr>store = \<lparr>mps_mem = {1}, lenvs_mem = {}, renvs_mem = {}, env_files = {}\<rparr>,
           trace = [Loaded_mps 0, Dumped_mps 0, Dumped_mps 1, Loaded_mps 1]\<rparr>)
   \<and> CheckAndUpdateBoundaryMPSTensors True left_shape right_shape Dmax 2 fresh_state =
       Inl AssertionFailed"
  by (rule CheckAndUpdate_two_sites)
section \<open>Properties of adding a term\<close>

declare ntrvl_ops_reprs_loop.simps [simp del]

lemma AddTerm_member_N:
  "AddTerm P checked coef local_ops local_ops_idxs g = Inr g' \<Longrightarrow> member_N g' = member_N g"
  by (auto simp: AddTerm_def Let_def split: if_splits prod.splits sum.splits)

lemma AddTerms_member_N:
  "AddTerms P checked terms g = Inr g' \<Longrightarrow> member_N g' = member_N g"
proof (induction terms arbitrary: g)
  case Nil
  then show ?case by simp
next
  case (Cons t terms)
  obtain coef local_ops local_ops_idxs where t: "t = (coef, local_ops, local_ops_idxs)"
    by (cases t) auto
  from Cons.prems obtain g1 where
      g1: "AddTerm P checked coef local_ops local_ops_idxs g = Inr g1"
      "AddTerms P checked terms g1 = Inr g'"
    by (auto simp: t split: sum.splits)
  then show ?case
    using Cons.IH [of g1] AddTerm_member_N [of P checked coef local_ops local_ops_idxs g g1]
    by simp
qed

lemma AddTerms_append:
  "AddTerms P checked (before @ after) g =
     (case AddTerms P checked before g of
        Inl e \<Rightarrow> Inl e
      | Inr g' \<Rightarrow> AddTerms P checked after g')"
  by (induction before arbitrary: g) (auto split: sum.splits)

lemma AddTerm_zero:
  assumes "\<not> checked \<or> AddTerm_assertions local_ops local_ops_idxs (member_N g)"
  shows "AddTerm P checked 0 local_ops local_ops_idxs g = Inr g"
  using assms by (auto simp: AddTerm_def AddTerm_assertions_def)

text \<open>When an assertion fails the call does not return; it never returns a changed generator.\<close>

lemma AddTerm_zero_returns_same:
  "AddTerm P checked 0 local_ops local_ops_idxs g = Inr g' \<Longrightarrow> g' = g"
  by (auto simp: AddTerm_def split: if_splits)

text \<open>
  C9. A call of \<^verbatim>\<open>AddTerm\<close> with a coefficient equal to zero, in a build without
  assertions or with arguments that pass the assertions, returns at once and leaves the
  generator as it was: no path is added, no coefficient and no operator is registered.
  So a sequence of calls with such a call in it ends in the same generator as the
  sequence without it, and a later \<^verbatim>\<open>Gen\<close> produces the same MPO.
\<close>

theorem AddTerm_zero_coefficient:
  assumes "\<not> checked \<or> AddTerm_assertions local_ops local_ops_idxs (member_N g)"
  shows "AddTerm P checked 0 local_ops local_ops_idxs g = Inr g \<and>
         AddTerms P checked (before @ (0, local_ops, local_ops_idxs) # after) g =
           AddTerms P checked (before @ after) g \<and>
         map_sum id (Gen P) (AddTerms P checked (before @ (0, local_ops, local_ops_idxs) # after) g) =
           map_sum id (Gen P) (AddTerms P checked (before @ after) g)"
proof -
  have one: "AddTerm P checked 0 local_ops local_ops_idxs g = Inr g"
    using assms by (rule AddTerm_zero)
  have "AddTerms P checked ((0, local_ops, local_ops_idxs) # after) g1 = AddTerms P checked after g1"
    if "AddTerms P checked before g = Inr g1" for g1
  proof -
    have "member_N g1 = member_N g"
      using that by (rule AddTerms_member_N)
    then have "AddTerm P checked 0 local_ops local_ops_idxs g1 = Inr g1"
      using assms AddTerm_zero [of checked local_ops local_ops_idxs g1 P] by simp
    then show ?thesis by simp
  qed
  then have seq: "AddTerms P checked (before @ (0, local_ops, local_ops_idxs) # after) g =
           AddTerms P checked (before @ after) g"
    by (simp add: AddTerms_append split: sum.splits)
  show ?thesis
    using one seq by simp
qed

text \<open>
  Two sites, assertions on: a zero term on site 0 alone, and between two other terms.
\<close>

theorem AddTerm_zero_coefficient_witness:
  "AddTerm list_parts True 0 [''Sz''] [0] two_site_generator = Inr two_site_generator \<and>
   AddTerms list_parts True
     ([(1, [''Sz'', ''Sz''], [0, 1])] @ (0, [''Sz''], [0]) # [(2, [''Sx''], [1])])
     two_site_generator =
   AddTerms list_parts True ([(1, [''Sz'', ''Sz''], [0, 1])] @ [(2, [''Sx''], [1])])
     two_site_generator"
  using AddTerm_zero_coefficient [of True "[''Sz'']" "[0]" two_site_generator list_parts
      "[(1, [''Sz'', ''Sz''], [0, 1])]" "[(2, [''Sx''], [1])]"]
  by (simp add: AddTerm_assertions_def size_t_of_int_def two_site_generator_def)

text \<open>A term with coefficient 3 does register its labels and add its path.\<close>

lemma AddTerm_nonzero_example:
  "AddTerm list_parts True 3 [''Sz'', ''Sz''] [0, 1] two_site_generator =
     Inr \<lparr>member_N = 2, id_op_vector = [''id'', ''id''], op_label_convertor = [''id'', ''Sz''],
          coef_label_convertor = [1, 3],
          fsm = [(0, 1, [OpRepr_coef_op 1 1, OpRepr_op 1])]\<rparr>"
  by (simp add: AddTerm_def two_site_generator_def list_parts_def list_Convert_def
        size_t_of_int_def Let_def ntrvl_ops_reprs_loop.simps)
section \<open>Properties of the expansion fan-in\<close>





lemma scheduled_tasks_simps [simp]:
  "scheduled_tasks task_size [] = []"
  "scheduled_tasks task_size (MPIRecv source tag idx # actions) = scheduled_tasks task_size actions"
  "scheduled_tasks task_size (world_send dest tag v # actions) =
     (if v = 2 * task_size then [] else [v]) @ scheduled_tasks task_size actions"
  "scheduled_tasks task_size (xs @ ys) = scheduled_tasks task_size xs @ scheduled_tasks task_size ys"
  by (simp_all add: scheduled_tasks_def)






section \<open>Properties of the truncation\<close>

text \<open>
  The walk keeps no more values than there are and no fewer than \<open>Dmin\<close> of them, as far
  as there are that many; with \<open>Dmin \<le> Dmax\<close> it keeps at most \<open>Dmax\<close>; and the error it
  reports is the error it started with and the squares of the values it discarded.
\<close>

lemma discard_smallest_kept:
  assumes "discard_smallest Dmin Dmax trunc_err svs err = (D, actual)"
  shows "D \<le> length svs \<and> min Dmin (length svs) \<le> D \<and> (Dmin \<le> Dmax \<longrightarrow> D \<le> Dmax) \<and>
         actual = err + (\<Sum>sv\<leftarrow>take (length svs - D) svs. sv\<^sup>2)"
  using assms
proof (induction svs arbitrary: err)
  case Nil
  then show ?case by simp
next
  case (Cons sv svs)
  show ?case
  proof (cases "Suc (length svs) \<le> Dmin \<or>
                (\<not> Dmax < Suc (length svs) \<and> \<not> err + sv\<^sup>2 \<le> trunc_err)")
    case True
    then have "D = Suc (length svs)" "actual = err"
      using Cons.prems by (auto simp: Let_def split: if_splits)
    then show ?thesis
      using True by auto
  next
    case False
    then have rec: "discard_smallest Dmin Dmax trunc_err svs (err + sv\<^sup>2) = (D, actual)"
      using Cons.prems by (auto simp: Let_def split: if_splits)
    from Cons.IH [OF rec]
    have ih: "D \<le> length svs" "min Dmin (length svs) \<le> D" "Dmin \<le> Dmax \<longrightarrow> D \<le> Dmax"
        "actual = err + sv\<^sup>2 + (\<Sum>sv\<leftarrow>take (length svs - D) svs. sv\<^sup>2)"
      by simp_all
    have "Suc (length svs) - D = Suc (length svs - D)"
      using ih(1) by simp
    then have "actual = err + (\<Sum>x\<leftarrow>take (length (sv # svs) - D) (sv # svs). x\<^sup>2)"
      using ih(4) by simp
    moreover have "min Dmin (length (sv # svs)) \<le> D"
      using False ih(2) by auto
    ultimately show ?thesis
      using ih(1,3) by simp
  qed
qed

text \<open>
  Only the discards that the cap \<open>Dmax\<close> demands can take the error over the budget, and
  then the walk stops at \<open>Dmax\<close>.
\<close>

lemma discard_smallest_error:
  assumes "discard_smallest Dmin Dmax trunc_err svs err = (D, actual)"
    and "Dmin \<le> Dmax" and "err \<le> trunc_err \<or> Dmax \<le> length svs"
  shows "actual \<le> trunc_err \<or> D = Dmax"
  using assms(1,3)
proof (induction svs arbitrary: err)
  case Nil
  then show ?case by auto
next
  case (Cons sv svs)
  have sq: "0 \<le> sv\<^sup>2" by simp
  consider (floor) "Suc (length svs) \<le> Dmin"
    | (cap) "\<not> Suc (length svs) \<le> Dmin" "Dmax < Suc (length svs)"
    | (within) "\<not> Suc (length svs) \<le> Dmin" "\<not> Dmax < Suc (length svs)" "err + sv\<^sup>2 \<le> trunc_err"
    | (stop) "\<not> Suc (length svs) \<le> Dmin" "\<not> Dmax < Suc (length svs)" "\<not> err + sv\<^sup>2 \<le> trunc_err"
    by blast
  then show ?case
  proof cases
    case floor
    then have "D = Suc (length svs)" "actual = err"
      using Cons.prems(1) by (auto simp: Let_def)
    then show ?thesis
      using floor assms(2) Cons.prems(2) by auto
  next
    case cap
    then have rec: "discard_smallest Dmin Dmax trunc_err svs (err + sv\<^sup>2) = (D, actual)"
      using Cons.prems(1) by (auto simp: Let_def)
    have "err + sv\<^sup>2 \<le> trunc_err \<or> Dmax \<le> length svs"
      using cap(2) by simp
    then show ?thesis
      using Cons.IH [OF rec] by simp
  next
    case within
    then have rec: "discard_smallest Dmin Dmax trunc_err svs (err + sv\<^sup>2) = (D, actual)"
      using Cons.prems(1) by (auto simp: Let_def)
    show ?thesis
      using Cons.IH [OF rec] within(3) by simp
  next
    case stop
    then have res: "D = Suc (length svs)" "actual = err"
      using Cons.prems(1) by (auto simp: Let_def)
    show ?thesis
    proof (cases "err \<le> trunc_err")
      case True
      then show ?thesis using res by simp
    next
      case False
      then have "Dmax \<le> Suc (length svs)"
        using Cons.prems(2) by simp
      then show ?thesis
        using stop(2) res by simp
    qed
  qed
qed

text \<open>
  C5, as the contract has it. For \<open>Dmin \<le> Dmax\<close> and a budget that is not negative, the
  kept dimension \<open>D\<close> is at most \<open>Dmax\<close> and at least \<open>Dmin\<close>, or the number of singular
  values when there are fewer than \<open>Dmin\<close>; the reported error is the sum of the squares
  of the \<open>n - D\<close> smallest singular values; and it is at most the budget unless \<open>D = Dmax\<close>:
  the error exceeds the budget only when the cap \<open>Dmax\<close> forces it.
\<close>

theorem truncation_bounds:
  assumes "Dmin \<le> Dmax" and "0 \<le> trunc_err"
    and "MPISVDMaster trunc_err Dmin Dmax singular_values = (D, actual_trunc_err)"
  shows "D \<le> Dmax \<and> D \<le> length singular_values \<and> min Dmin (length singular_values) \<le> D \<and>
         actual_trunc_err =
           (\<Sum>sv\<leftarrow>take (length singular_values - D) (sort singular_values). sv\<^sup>2) \<and>
         (actual_trunc_err \<le> trunc_err \<or> D = Dmax)"
proof -
  have run: "discard_smallest Dmin Dmax trunc_err (sort singular_values) 0 = (D, actual_trunc_err)"
    using assms(3) by (simp add: MPISVDMaster_def)
  from discard_smallest_kept [OF run] discard_smallest_error [OF run assms(1)] assms(1,2)
  show ?thesis by simp
qed

text \<open>
  Five singular values, budget \<open>1 / 4\<close>, \<open>Dmin = 1\<close>: with \<open>Dmax = 3\<close> the cap forces the
  error \<open>5 / 16\<close>; with \<open>Dmax = 4\<close> the error \<open>1 / 16\<close> is within the budget.
\<close>

theorem truncation_bounds_witness:
  "MPISVDMaster (1 / 4) 1 3 [2, 1 / 2, 3, 1 / 4, 1] = (3, 5 / 16) \<and>
   (3 :: nat) \<le> 3 \<and> min 1 (length [2, 1 / 2, 3, 1 / 4, 1 :: real]) \<le> (3 :: nat)
   \<and> MPISVDMaster (1 / 4) 1 4 [2, 1 / 2, 3, 1 / 4, 1] = (4, 1 / 16)"
proof -
  have srt: "sort [2, 1 / 2, 3, 1 / 4, 1 :: real] = [1 / 4, 1 / 2, 1, 2, 3]"
    by simp
  have a: "MPISVDMaster (1 / 4) 1 3 [2, 1 / 2, 3, 1 / 4, 1] = (3, 5 / 16)"
    by (simp add: MPISVDMaster_def srt power2_eq_square)
  have b: "MPISVDMaster (1 / 4) 1 4 [2, 1 / 2, 3, 1 / 4, 1] = (4, 1 / 16)"
    by (simp add: MPISVDMaster_def srt power2_eq_square)
  from truncation_bounds [OF _ _ a] truncation_bounds [OF _ _ b]
  show ?thesis
    using a b by simp
qed

text \<open>
  C5 as stated lets the error exceed the budget only when the floor \<open>Dmin\<close> forces it,
  and has \<open>Dmin \<le> D\<close> always. Three singular values 1 with budget 0, \<open>Dmin = 1\<close> and
  \<open>Dmax = 2\<close>: keeping all three would meet the budget and \<open>D = 2\<close> is above the floor, yet
  the error is 1. One singular value with \<open>Dmin = 2\<close>: \<open>D = 1\<close>.
\<close>

theorem truncation_error_over_budget_counterexample:
  "MPISVDMaster 0 1 2 [1, 1, 1] = (2, 1) \<and> MPISVDMaster 0 2 3 [1] = (1, 0)"
  by (simp add: MPISVDMaster_def)

section \<open>A run over two sites\<close>

text \<open>
  C4 says that every run of \<^verbatim>\<open>MasterTwoSiteFiniteVMPS\<close> ends with the broadcast of
  \<open>program_final\<close> after its sweeps over the sites between the boundaries. For an MPS of
  two sites it is not so. The boundary check returns the boundaries \<open>(0, 0)\<close> (in a build
  with assertions it ends the program instead); with them the bound
  \<^verbatim>\<open>right_boundary - 2\<close> of the right-moving loop of the first sweep wraps, so the loop is
  entered at site 0 and \<^verbatim>\<open>LoadRelatedTensOnTwoSiteAlgWhenRightMoving\<close> loads the MPS tensor
  at site 2, beyond the end of the MPS. Whatever the noises and the collaborators, a run
  of one sweep or more leaves defined behaviour in its first sweep, before any bond
  update, and \<open>program_final\<close> is not reached.
\<close>

theorem master_two_site_run:
  "(\<exists>s'. CheckAndUpdateBoundaryMPSTensors False left_shape right_shape Dmax 2 fresh_state =
            Inr ((0, 0), s'))
   \<and> CheckAndUpdateBoundaryMPSTensors True left_shape right_shape Dmax 2 fresh_state =
       Inl AssertionFailed
   \<and> MasterTwoSiteFiniteVMPS C 2 (0, 0) noises (Suc n) s = Inl OutOfRange"
proof -
  have sub: "size_t_sub 0 2 = 18446744073709551614"
    by (simp add: size_t_sub_def)
  have load: "LoadRelatedTensOnTwoSiteAlgWhenRightMoving 2 0 0 s0 = Inl OutOfRange" for s0
    by (simp add: LoadRelatedTensOnTwoSiteAlgWhenRightMoving_def mps_LoadTen_def)
  have loop: "right_moving_loop C 2 0 0 noise 0 s0 = Inl OutOfRange" for noise s0
    by (simp add: right_moving_loop.simps [of C 2 0 0 noise 0] sub load)
  have sweep: "TwoSiteFiniteVMPSSweep C 2 0 0 noise s0 = Inl OutOfRange" for noise s0
    by (simp add: TwoSiteFiniteVMPSSweep_def Let_def loop)
  have sweeps: "sweeps_loop C 2 0 0 (x # xs) (Suc n) (Suc 0) None s0 = Inl OutOfRange"
    for x xs s0
    by (simp add: sweeps_loop.simps [of C 2 0 0 "x # xs" "Suc n" "Suc 0"] Let_def sweep
          size_t_sub_def)
  have master: "MasterTwoSiteFiniteVMPS C 2 (0, 0) noises (Suc n) s = Inl OutOfRange"
    by (cases noises) (simp_all add: MasterTwoSiteFiniteVMPS_def Let_def mps_LoadTen_def sweeps)
  show ?thesis
    using CheckAndUpdate_two_sites [of left_shape right_shape Dmax] master by simp
qed
end
